theory Spec2Isabelle
  imports Complex_Main "HOL-Library.Product_Lexorder" "HOL-Library.Multiset" "HOL-Library.Word"
begin

section \<open>Errors and Python primitives\<close>

text \<open>
  Exceptions of the Python code are values.  A \<open>KeyError\<close> carries the key that was
  looked up, as Python's \<open>KeyError\<close> does: the key of the pair table is the tuple
  \<open>(account_idx, merchant_idx)\<close>, the key of the popularity table is \<open>merchant_idx\<close>,
  the key of a data frame is a column name.
\<close>

datatype key = PairKey int int | ItemKey int | ColumnKey string

datatype error = KeyError key | ValueError string | MalformedLiteral

text \<open>\<open>d[k]\<close> on a dict: the value, or \<open>KeyError(k)\<close>.\<close>

definition getitem :: "('k \<Rightarrow> key) \<Rightarrow> ('k \<rightharpoonup> 'v) \<Rightarrow> 'k \<Rightarrow> error + 'v" where
  "getitem mk d k = (case d k of None \<Rightarrow> Inl (KeyError (mk k)) | Some v \<Rightarrow> Inr v)"

text \<open>
  \<open>list(map(f, xs))\<close> where \<open>f\<close> may raise: elements are computed left to right and the
  first exception ends the computation.
\<close>

fun list_map :: "('a \<Rightarrow> error + 'b) \<Rightarrow> 'a list \<Rightarrow> error + 'b list" where
  "list_map f [] = Inr []"
| "list_map f (x # xs) =
     (case f x of
        Inl e \<Rightarrow> Inl e
      | Inr y \<Rightarrow> (case list_map f xs of Inl e \<Rightarrow> Inl e | Inr ys \<Rightarrow> Inr (y # ys)))"

text \<open>
  \<open>sorted(xs, reverse=True)\<close>: CPython reverses the list, sorts it with its stable sort
  and reverses the result.  \<open>sort\<close> is the stable insertion sort of the list library.
  Tuples are compared lexicographically (the order of \<open>Product_Lexorder\<close>).
\<close>

definition sorted_reverse :: "'a::linorder list \<Rightarrow> 'a list" where
  "sorted_reverse xs = rev (sort (rev xs))"

section \<open>Relevance-list builders (\<open>recommendation/task/ifood.py\<close>)\<close>

text \<open>
  Account and merchant indices are integers.  Scores are values of a linearly ordered
  type \<open>'s\<close>: floating-point scores are compared exactly, so the order of the scores
  (without \<open>NaN\<close>) is all that the builders use.
\<close>

text \<open>The 0/1 vector marking the positions of the ordered merchant.\<close>

definition relevance_of :: "int \<Rightarrow> int list \<Rightarrow> int list" where
  "relevance_of ordered_merchant_idx xs =
     map (\<lambda>merchant_idx. if merchant_idx = ordered_merchant_idx then 1 else 0) xs"

text \<open>The local variable \<open>sorted_merchant_idx_list\<close> of both score-based builders.\<close>

definition sorted_merchant_idx_list :: "'s::linorder list \<Rightarrow> int list \<Rightarrow> int list" where
  "sorted_merchant_idx_list scores merchant_idx_list =
     map snd (sorted_reverse (zip scores merchant_idx_list))"

definition generate_relevance_list ::
  "int \<Rightarrow> int \<Rightarrow> int list \<Rightarrow> (int \<times> int \<rightharpoonup> 's::linorder) \<Rightarrow> error + int list" where
  "generate_relevance_list account_idx ordered_merchant_idx merchant_idx_list scores_per_tuple =
     (case list_map (\<lambda>merchant_idx.
               getitem (\<lambda>(a, m). PairKey a m) scores_per_tuple (account_idx, merchant_idx))
             merchant_idx_list of
        Inl e \<Rightarrow> Inl e
      | Inr scores \<Rightarrow>
          Inr (relevance_of ordered_merchant_idx
                 (sorted_merchant_idx_list scores merchant_idx_list)))"

definition generate_relevance_list_from_merchant_scores ::
  "int \<Rightarrow> int list \<Rightarrow> (int \<rightharpoonup> 's::linorder) \<Rightarrow> error + int list" where
  "generate_relevance_list_from_merchant_scores ordered_merchant_idx merchant_idx_list
       scores_per_merchant =
     (case list_map (\<lambda>merchant_idx. getitem ItemKey scores_per_merchant merchant_idx)
             merchant_idx_list of
        Inl e \<Rightarrow> Inl e
      | Inr scores \<Rightarrow>
          Inr (relevance_of ordered_merchant_idx
                 (sorted_merchant_idx_list scores merchant_idx_list)))"

subsection \<open>The order described by the specification\<close>

text \<open>
  The specification's words for the candidate order: a stable sort over (score descending,
  original candidate-list position), so that candidates with equal scores keep their
  relative order from the candidate list.  \<open>stable_sort_desc\<close> is a stable insertion sort
  by descending key; \<open>generate_relevance_list_stable\<close> is the builder with that order in
  place of \<open>sorted(zip(scores, merchant_idx_list), reverse=True)\<close>.
\<close>

fun insert_desc :: "('a \<Rightarrow> 'k::linorder) \<Rightarrow> 'a \<Rightarrow> 'a list \<Rightarrow> 'a list" where
  "insert_desc f x [] = [x]"
| "insert_desc f x (y # ys) = (if f y \<le> f x then x # y # ys else y # insert_desc f x ys)"

definition stable_sort_desc :: "('a \<Rightarrow> 'k::linorder) \<Rightarrow> 'a list \<Rightarrow> 'a list" where
  "stable_sort_desc f xs = foldr (insert_desc f) xs []"

definition stable_sorted_merchant_idx_list :: "'s::linorder list \<Rightarrow> int list \<Rightarrow> int list" where
  "stable_sorted_merchant_idx_list scores merchant_idx_list =
     map snd (stable_sort_desc fst (zip scores merchant_idx_list))"

definition generate_relevance_list_stable ::
  "int \<Rightarrow> int \<Rightarrow> int list \<Rightarrow> (int \<times> int \<rightharpoonup> 's::linorder) \<Rightarrow> error + int list" where
  "generate_relevance_list_stable account_idx ordered_merchant_idx merchant_idx_list
       scores_per_tuple =
     (case list_map (\<lambda>merchant_idx.
               getitem (\<lambda>(a, m). PairKey a m) scores_per_tuple (account_idx, merchant_idx))
             merchant_idx_list of
        Inl e \<Rightarrow> Inl e
      | Inr scores \<Rightarrow>
          Inr (relevance_of ordered_merchant_idx
                 (stable_sorted_merchant_idx_list scores merchant_idx_list)))"

subsection \<open>The random builder\<close>

text \<open>
  The object passed as \<open>merchant_idx_list\<close>: its elements and whether it can be written.
  A Python list can always be written; a numpy array carries the flag \<open>writeable\<close>, and
  the arrays that hold the cells of a table read from a file may be read-only.
\<close>

record candidate_list =
  elements :: "int list"
  writeable :: bool

text \<open>
  \<open>np.random.shuffle(x)\<close> refuses an array that cannot be written
  (\<open>ValueError("array is read-only")\<close>) before it draws anything.  Otherwise it shuffles
  \<open>x\<close> in place by the Fisher-Yates loop
  \<^verbatim>\<open>for i in reversed(range(1, n)): j = random_interval(i); x[i], x[j] = x[j], x[i]\<close>,
  where \<open>random_interval(i)\<close> draws an index between 0 and \<open>i\<close> (inclusive) from numpy's
  global generator.  The generator is a parameter: a state \<open>'g\<close> and the function
  \<open>random_interval\<close> from a state and \<open>i\<close> to the drawn index and the next state.
  \<open>shuffle_loop random_interval k\<close> runs the loop for \<open>i = k, k - 1, \<dots>, 1\<close>.  What is
  known of numpy's generator is that the drawn index is at most \<open>i\<close>; the theorems
  assume it.
\<close>

fun shuffle_loop :: "('g \<Rightarrow> nat \<Rightarrow> nat \<times> 'g) \<Rightarrow> nat \<Rightarrow> 'g \<Rightarrow> 'a list \<Rightarrow> 'a list \<times> 'g" where
  "shuffle_loop random_interval 0 g x = (x, g)"
| "shuffle_loop random_interval (Suc i) g x =
     (case random_interval g (Suc i) of
        (j, g') \<Rightarrow> shuffle_loop random_interval i g' (x[Suc i := x ! j, j := x ! Suc i]))"

definition shuffle_elements ::
  "('g \<Rightarrow> nat \<Rightarrow> nat \<times> 'g) \<Rightarrow> 'g \<Rightarrow> 'a list \<Rightarrow> 'a list \<times> 'g" where
  "shuffle_elements random_interval g x = shuffle_loop random_interval (length x - 1) g x"

definition shuffle ::
  "('g \<Rightarrow> nat \<Rightarrow> nat \<times> 'g) \<Rightarrow> 'g \<Rightarrow> candidate_list \<Rightarrow> error + candidate_list \<times> 'g" where
  "shuffle random_interval g x =
     (if \<not> writeable x then Inl (ValueError ''array is read-only'')
      else case shuffle_elements random_interval g (elements x) of
             (shuffled, g') \<Rightarrow> Inr (x\<lparr>elements := shuffled\<rparr>, g'))"

text \<open>
  \<open>_generate_random_relevance_list\<close>.  The argument \<open>merchant_idx_list\<close> is a reference to
  the caller's object, which the shuffle overwrites; the function is therefore modelled
  by explicit state passing: it takes the caller's object and the generator state, and
  gives the outcome of the call (the exception raised or the relevance list returned)
  together with the caller's object and the generator state after the call.
\<close>

record 'g random_call =
  outcome :: "error + int list"
  merchant_idx_list_after :: candidate_list
  generator_after :: 'g

definition generate_random_relevance_list ::
  "('g \<Rightarrow> nat \<Rightarrow> nat \<times> 'g) \<Rightarrow> int \<Rightarrow> candidate_list \<Rightarrow> 'g \<Rightarrow> 'g random_call" where
  "generate_random_relevance_list random_interval ordered_merchant_idx merchant_idx_list g =
     (case shuffle random_interval g merchant_idx_list of
        Inl e \<Rightarrow>
          \<lparr>outcome = Inl e,
           merchant_idx_list_after = merchant_idx_list,
           generator_after = g\<rparr>
      | Inr (shuffled, g') \<Rightarrow>
          \<lparr>outcome = Inr (relevance_of ordered_merchant_idx (elements shuffled)),
           merchant_idx_list_after = shuffled,
           generator_after = g'\<rparr>)"

section \<open>The relevance-list task for a trained model\<close>

text \<open>
  A row of the orders table read by the tasks.  The columns that the tasks use are
  \<open>order_id\<close>, \<open>account_idx\<close>, \<open>merchant_idx\<close> (the ordered merchant) and
  \<open>merchant_idx_list\<close> (the candidates).
\<close>

record 'o order =
  order_id :: 'o
  account_idx :: int
  merchant_idx :: int
  merchant_idx_list :: "int list"

text \<open>
  \<open>orders_df[orders_df.apply(lambda row: row["merchant_idx"] in row["merchant_idx_list"], axis=1)]\<close>
\<close>

definition filter_orders :: "'o order list \<Rightarrow> 'o order list" where
  "filter_orders orders_df =
     filter (\<lambda>row. merchant_idx row \<in> set (merchant_idx_list row)) orders_df"

text \<open>
  \<open>GenerateRelevanceListsForIfoodModel.run\<close>, from the score table on (the table is what
  \<open>_evaluate_account_merchant_tuples\<close> returns; the trained model behind it is a
  parameter here).  The result is the written table: the columns \<open>order_id\<close> and
  \<open>relevance_list\<close>.  No exception is caught in \<open>run\<close>.
\<close>

definition GenerateRelevanceListsForIfoodModel_run ::
  "(int \<times> int \<rightharpoonup> 's::linorder) \<Rightarrow> 'o order list \<Rightarrow> error + ('o \<times> int list) list" where
  "GenerateRelevanceListsForIfoodModel_run scores_per_tuple orders_df0 =
     (let orders_df = filter_orders orders_df0 in
      case list_map (\<lambda>row. generate_relevance_list (account_idx row) (merchant_idx row)
                              (merchant_idx_list row) scores_per_tuple) orders_df of
        Inl e \<Rightarrow> Inl e
      | Inr relevance_list \<Rightarrow> Inr (zip (map order_id orders_df) relevance_list))"

section \<open>The random relevance-list task\<close>

text \<open>
  \<open>GenerateRandomRelevanceLists.run\<close>: the same filter, then the random builder on every
  remaining row in row order, the generator state passing from one call to the next; the
  first exception ends the task.  The builder is given the object that holds the row's
  \<open>merchant_idx_list\<close> cell, an array made by \<open>pd.read_parquet\<close>; whether that array can be
  written depends on the reader, so it is the parameter \<open>writeable_cell\<close>.  The result is
  the written table and the generator state at the end, or the exception.
\<close>

fun starmap_random ::
  "('g \<Rightarrow> nat \<Rightarrow> nat \<times> 'g) \<Rightarrow> ('o order \<Rightarrow> bool) \<Rightarrow> 'o order list \<Rightarrow> 'g
     \<Rightarrow> error + int list list \<times> 'g" where
  "starmap_random random_interval writeable_cell [] g = Inr ([], g)"
| "starmap_random random_interval writeable_cell (row # rows) g =
     (let call = generate_random_relevance_list random_interval (merchant_idx row)
                   \<lparr>elements = merchant_idx_list row, writeable = writeable_cell row\<rparr> g
      in case outcome call of
           Inl e \<Rightarrow> Inl e
         | Inr relevance \<Rightarrow>
             (case starmap_random random_interval writeable_cell rows (generator_after call) of
                Inl e \<Rightarrow> Inl e
              | Inr (relevance_list, g') \<Rightarrow> Inr (relevance # relevance_list, g')))"

definition GenerateRandomRelevanceLists_run ::
  "('g \<Rightarrow> nat \<Rightarrow> nat \<times> 'g) \<Rightarrow> ('o order \<Rightarrow> bool) \<Rightarrow> 'o order list \<Rightarrow> 'g
     \<Rightarrow> error + ('o \<times> int list) list \<times> 'g" where
  "GenerateRandomRelevanceLists_run random_interval writeable_cell orders_df0 g =
     (let orders_df = filter_orders orders_df0 in
      case starmap_random random_interval writeable_cell orders_df g of
        Inl e \<Rightarrow> Inl e
      | Inr (relevance_list, g') \<Rightarrow> Inr (zip (map order_id orders_df) relevance_list, g'))"

section \<open>Most-popular scoring\<close>

text \<open>
  A row of the interactions table.  \<open>GenerateMostPopularRelevanceLists.run\<close> reads the
  columns \<open>merchant_idx\<close> and \<open>buys\<close>; the account and every other column are gathered
  in \<open>other_columns\<close>.  \<open>buys\<close> is a column of counts, which \<open>pd.read_csv\<close> reads as
  \<open>int64\<close>: its values are 64-bit words, read as two's complement numbers by \<open>sint\<close>, and
  their addition wraps around.  (A \<open>buys\<close> column with fractional values would be read as
  \<open>float64\<close> and summed with rounding; such a column is not modelled.)
\<close>

type_synonym int64 = "64 word"

record 'x interaction =
  interaction_merchant_idx :: int
  buys :: int64
  other_columns :: 'x

text \<open>
  \<open>interactions_df.groupby("merchant_idx")["buys"].sum()\<close>: one pass over the rows that
  adds each row's \<open>buys\<close> to the running \<open>int64\<close> sum of its group, the sums starting at
  0; the resulting series is indexed by the group keys in increasing order.
\<close>

fun series_add :: "int \<Rightarrow> int64 \<Rightarrow> (int \<times> int64) list \<Rightarrow> (int \<times> int64) list" where
  "series_add k v [] = [(k, 0 + v)]"
| "series_add k v ((k', s) # series) =
     (if k = k' then (k', s + v) # series
      else if k < k' then (k, 0 + v) # (k', s) # series
      else (k', s) # series_add k v series)"

definition groupby_merchant_idx_buys_sum :: "'x interaction list \<Rightarrow> (int \<times> int64) list" where
  "groupby_merchant_idx_buys_sum interactions_df =
     foldl (\<lambda>series row. series_add (interaction_merchant_idx row) (buys row) series)
       [] interactions_df"

text \<open>
  \<open>{merchant_idx: score for merchant_idx, score in zip(scores.index, scores)}\<close>
\<close>

definition scores_dict :: "'x interaction list \<Rightarrow> (int \<rightharpoonup> int64)" where
  "scores_dict interactions_df =
     foldl (\<lambda>d (merchant, score). d(merchant \<mapsto> score)) Map.empty
       (groupby_merchant_idx_buys_sum interactions_df)"

text \<open>
  \<open>GenerateMostPopularRelevanceLists.run\<close>, from the two tables read on.  The scores are
  compared as the signed numbers they denote.
\<close>

definition GenerateMostPopularRelevanceLists_run ::
  "'x interaction list \<Rightarrow> 'o order list \<Rightarrow> error + ('o \<times> int list) list" where
  "GenerateMostPopularRelevanceLists_run interactions_df orders_df0 =
     (let scores = (\<lambda>merchant. map_option sint (scores_dict interactions_df merchant));
          orders_df = filter_orders orders_df0 in
      case list_map (\<lambda>row. generate_relevance_list_from_merchant_scores (merchant_idx row)
                              (merchant_idx_list row) scores) orders_df of
        Inl e \<Rightarrow> Inl e
      | Inr relevance_list \<Rightarrow> Inr (zip (map order_id orders_df) relevance_list))"

section \<open>Metadata preprocessing (\<open>recommendation/data.py\<close>)\<close>

text \<open>
  The metadata table, column by column: the values of the item column
  (\<open>project_config.item_column.name\<close>) and the other columns by name, each a list with one
  value per row.  Reading a column that the table does not have raises \<open>KeyError\<close>.
\<close>

record 'v metadata_data_frame =
  item_column :: "int list"
  columns :: "string \<rightharpoonup> 'v list"

text \<open>\<open>(np.arange(0, len(index)) == index).all()\<close>: element by element.\<close>

definition index_is_arange :: "int list \<Rightarrow> bool" where
  "index_is_arange index =
     list_all (\<lambda>(a, b). a = b) (zip (map int [0..<length index]) index)"

text \<open>
  The loop over \<open>project_config.metadata_columns\<close> that fills \<open>embeddings_for_metadata\<close>;
  \<open>column name\<close> is the column read from the sorted table.
\<close>

fun embeddings_loop ::
  "(string \<Rightarrow> error + 'v list) \<Rightarrow> string list \<Rightarrow> (string \<rightharpoonup> 'v list)
     \<Rightarrow> error + (string \<rightharpoonup> 'v list)" where
  "embeddings_loop column [] embeddings_for_metadata = Inr embeddings_for_metadata"
| "embeddings_loop column (name # names) embeddings_for_metadata =
     (case column name of
        Inl e \<Rightarrow> Inl e
      | Inr emb \<Rightarrow> embeddings_loop column names (embeddings_for_metadata(name \<mapsto> emb)))"

text \<open>
  \<open>preprocess_metadata_data_frame\<close>.  \<open>set_index(item column, drop=False).sort_index()\<close>
  sorts the rows by the item column: the index becomes the sorted item column and every
  column is permuted along.  The cast \<open>np.array(emb, dtype=\<dots>)\<close> is not modelled: a
  column's values are returned as they are.
\<close>

definition preprocess_metadata_data_frame ::
  "'v metadata_data_frame \<Rightarrow> string list \<Rightarrow> error + (string \<rightharpoonup> 'v list)" where
  "preprocess_metadata_data_frame df metadata_columns =
     (let index = sort (item_column df);
          column = (\<lambda>name. case columns df name of
                      None \<Rightarrow> Inl (KeyError (ColumnKey name))
                    | Some vals \<Rightarrow> Inr (map snd (sort_key fst (zip (item_column df) vals))))
      in if \<not> index_is_arange index
         then Inl (ValueError ''The item index is not contiguous'')
         else embeddings_loop column metadata_columns Map.empty)"

section \<open>The textual encoding of relevance lists\<close>

subsection \<open>Writing: \<open>str\<close> of a list of integers, as a CSV field\<close>

text \<open>
  \<open>to_csv\<close> writes a cell that holds a Python list as \<open>str(list)\<close>: the \<open>repr\<close> of the
  elements, separated by a comma and a space, in square brackets.
\<close>

fun nat_repr :: "nat \<Rightarrow> string" where
  "nat_repr n =
     (if n < 10 then [''0123456789'' ! n]
      else nat_repr (n div 10) @ [''0123456789'' ! (n mod 10)])"

declare nat_repr.simps [simp del]

definition int_repr :: "int \<Rightarrow> string" where
  "int_repr i = (if i < 0 then CHR ''-'' # nat_repr (nat (- i)) else nat_repr (nat i))"

fun join :: "string \<Rightarrow> string list \<Rightarrow> string" where
  "join sep [] = []"
| "join sep [part] = part"
| "join sep (part # next_part # parts) = part @ sep @ join sep (next_part # parts)"

definition list_str :: "int list \<Rightarrow> string" where
  "list_str xs = ''['' @ join '', '' (map int_repr xs) @ '']''"

text \<open>
  A field of the CSV file, as the \<open>csv\<close> writer emits it with minimal quoting: a field that
  contains the delimiter, the quote character or a line break is enclosed in double
  quotes, with every quote character in it doubled.
\<close>

definition csv_special :: "char \<Rightarrow> bool" where
  "csv_special c \<longleftrightarrow> c = CHR '','' \<or> c = CHR 0x22 \<or> c = CHR 0x0A \<or> c = CHR 0x0D"

definition csv_write_field :: "string \<Rightarrow> string" where
  "csv_write_field field =
     (if list_ex csv_special field
      then CHR 0x22 # concat (map (\<lambda>c. if c = CHR 0x22 then [c, c] else [c]) field) @ [CHR 0x22]
      else field)"

subsection \<open>Reading: the CSV field and \<open>ast.literal_eval\<close>\<close>

text \<open>
  The text of a field as the CSV reader returns it: a field that starts with a double
  quote extends to the closing quote, a doubled quote standing for one quote character;
  what follows the closing quote is taken as it is.
\<close>

fun csv_quoted :: "string \<Rightarrow> string" where
  "csv_quoted [] = []"
| "csv_quoted [c] = (if c = CHR 0x22 then [] else [c])"
| "csv_quoted (c # d # cs) =
     (if c = CHR 0x22 then (if d = CHR 0x22 then CHR 0x22 # csv_quoted cs else d # cs)
      else c # csv_quoted (d # cs))"

definition csv_read_field :: "string \<Rightarrow> string" where
  "csv_read_field raw =
     (case raw of [] \<Rightarrow> [] | c # cs \<Rightarrow> if c = CHR 0x22 then csv_quoted cs else raw)"

text \<open>
  \<open>ast.literal_eval\<close> on the fragment of Python's literals that the relevance-list column
  holds: a list display of decimal integer literals, each with an optional sign, separated
  by commas, with an optional trailing comma and with blanks and tabs between the tokens.
  A text outside this fragment is reported as \<open>MalformedLiteral\<close>; this stands for the
  \<open>ValueError\<close> or \<open>SyntaxError\<close> that Python raises on a malformed text and also for the
  literals of other shapes, which the tasks never write.
\<close>

datatype token = LBRACK | RBRACK | COMMA | MINUS | PLUS | NUM string

definition is_digit :: "char \<Rightarrow> bool" where
  "is_digit c \<longleftrightarrow> c \<in> set ''0123456789''"

definition is_blank :: "char \<Rightarrow> bool" where
  "is_blank c \<longleftrightarrow> c = CHR '' '' \<or> c = CHR 0x09"

definition punctuation :: "char \<Rightarrow> token option" where
  "punctuation c =
     (if c = CHR ''['' then Some LBRACK
      else if c = CHR '']'' then Some RBRACK
      else if c = CHR '','' then Some COMMA
      else if c = CHR ''-'' then Some MINUS
      else if c = CHR ''+'' then Some PLUS
      else None)"

text \<open>\<open>flush digits ts\<close> ends the number whose digits have been read, if there are any.\<close>

definition flush :: "string \<Rightarrow> token list \<Rightarrow> token list" where
  "flush digits ts = (if digits = [] then ts else NUM digits # ts)"

fun tokenize :: "string \<Rightarrow> string \<Rightarrow> token list option" where
  "tokenize digits [] = Some (flush digits [])"
| "tokenize digits (c # cs) =
     (if is_digit c then tokenize (digits @ [c]) cs
      else if is_blank c then map_option (flush digits) (tokenize [] cs)
      else case punctuation c of
             None \<Rightarrow> None
           | Some t \<Rightarrow> map_option (\<lambda>ts. flush digits (t # ts)) (tokenize [] cs))"

text \<open>
  The value of a decimal integer literal.  Python rejects a literal with a leading zero
  unless all its digits are zero.
\<close>

definition digit_value :: "char \<Rightarrow> nat" where
  "digit_value c = length (takeWhile (\<lambda>d. d \<noteq> c) ''0123456789'')"

definition literal_value :: "string \<Rightarrow> int option" where
  "literal_value digits =
     (if digits = [] \<or> (hd digits = CHR ''0'' \<and> list_ex (\<lambda>d. d \<noteq> CHR ''0'') digits) then None
      else Some (int (foldl (\<lambda>n d. 10 * n + digit_value d) 0 digits)))"

text \<open>An integer literal with its optional sign, and the tokens after it.\<close>

fun parse_number :: "token list \<Rightarrow> (int \<times> token list) option" where
  "parse_number (NUM ds # ts) = map_option (\<lambda>v. (v, ts)) (literal_value ds)"
| "parse_number (MINUS # NUM ds # ts) = map_option (\<lambda>v. (- v, ts)) (literal_value ds)"
| "parse_number (PLUS # NUM ds # ts) = map_option (\<lambda>v. (v, ts)) (literal_value ds)"
| "parse_number _ = None"

text \<open>
  The elements of a list display after the opening bracket, up to the end of the text:
  the closing bracket, or an element followed by the closing bracket or by a comma and
  the remaining elements.
\<close>

function parse_elements :: "token list \<Rightarrow> int list option" where
  "parse_elements ts =
     (if ts = [RBRACK] then Some []
      else case parse_number ts of
             None \<Rightarrow> None
           | Some (v, rest) \<Rightarrow>
               (case rest of
                  [RBRACK] \<Rightarrow> Some [v]
                | COMMA # rest' \<Rightarrow> map_option (\<lambda>vs. v # vs) (parse_elements rest')
                | _ \<Rightarrow> None))"
  by pat_completeness auto
termination
proof (relation "measure length")
  show "wf (measure length)" by simp
next
  fix ts :: "token list" and x2 x y x21 x22
  assume "parse_number ts = Some x2" "(x, y) = x2" "y = x21 # x22"
  then have "parse_number ts = Some (x, x21 # x22)" by simp
  then have "length (x21 # x22) < length ts"
    by (induction ts rule: parse_number.induct) auto
  then show "(x22, ts) \<in> measure length" by simp
qed

declare parse_elements.simps [simp del]

definition literal_eval :: "string \<Rightarrow> error + int list" where
  "literal_eval node_or_string =
     (case tokenize [] node_or_string of
        Some (LBRACK # ts) \<Rightarrow>
          (case parse_elements ts of None \<Rightarrow> Inl MalformedLiteral | Some vs \<Rightarrow> Inr vs)
      | _ \<Rightarrow> Inl MalformedLiteral)"

text \<open>The tokens of the text written for a list of integers with one digit each.\<close>

fun bit_tokens :: "int list \<Rightarrow> token list" where
  "bit_tokens [] = [RBRACK]"
| "bit_tokens [x] = [NUM (int_repr x), RBRACK]"
| "bit_tokens (x # y # ys) = NUM (int_repr x) # COMMA # bit_tokens (y # ys)"

section \<open>The evaluation task\<close>

subsection \<open>\<open>multiprocessing.Pool.map\<close>\<close>

text \<open>
  \<open>Pool(processes).map(func, iterable)\<close> cuts the iterable into chunks (\<open>_get_tasks\<close>) whose
  size is computed from the length of the iterable and the number of processes
  (\<open>divmod(len(iterable), processes * 4)\<close>, rounded up; 0 for an empty iterable).  A worker
  process applies \<open>func\<close> to the items of a chunk, in order.
\<close>

definition map_chunksize :: "nat \<Rightarrow> nat \<Rightarrow> nat" where
  "map_chunksize len processes =
     (if len = 0 then 0
      else let chunksize = len div (processes * 4);
               extra = len mod (processes * 4)
           in if extra \<noteq> 0 then chunksize + 1 else chunksize)"

function get_tasks :: "nat \<Rightarrow> 'a list \<Rightarrow> 'a list list" where
  "get_tasks size' it =
     (let x = take size' it in if x = [] then [] else x # get_tasks size' (drop size' it))"
  by pat_completeness auto
termination
  by (relation "measure (\<lambda>(size', it). length it)") auto

declare get_tasks.simps [simp del]

text \<open>
  \<open>MapResult\<close> collects what the workers report.  Its value starts as a list of \<open>None\<close> as
  long as the iterable.  When chunk \<open>i\<close> is reported (\<open>_set\<close>), a successful result is
  stored in the slice \<open>[i * chunksize : (i + 1) * chunksize]\<close> of the value; the first
  reported failure replaces the value for good.
\<close>

datatype 'b map_result = Value "'b option list" | Failure error

definition map_result_set ::
  "nat \<Rightarrow> nat \<Rightarrow> error + 'b list \<Rightarrow> 'b map_result \<Rightarrow> 'b map_result" where
  "map_result_set chunksize i success_result r =
     (case r of
        Failure e \<Rightarrow> Failure e
      | Value v \<Rightarrow>
          (case success_result of
             Inl e \<Rightarrow> Failure e
           | Inr result \<Rightarrow>
               Value (take (i * chunksize) v @ map Some result @ drop ((i + 1) * chunksize) v)))"

text \<open>
  The workers report the chunks in an order that the program does not control: the
  parameter \<open>schedule\<close> lists the chunk numbers in the order in which they are reported.
  \<open>map\<close> returns when every chunk has been reported: it returns the value, or raises the
  failure.  A schedule in which a chunk is never reported makes \<open>map\<close> wait for ever,
  which is the result \<open>None\<close>.
\<close>

definition pool_map ::
  "nat list \<Rightarrow> nat \<Rightarrow> ('a \<Rightarrow> error + 'b) \<Rightarrow> 'a list \<Rightarrow> (error + 'b list) option" where
  "pool_map schedule processes func iterable =
     (let chunksize = map_chunksize (length iterable) processes;
          task_batches = get_tasks chunksize iterable;
          reported = filter (\<lambda>i. i < length task_batches) schedule;
          result = foldl (\<lambda>r i. map_result_set chunksize i
                                  (list_map func (task_batches ! i)) r)
                     (Value (replicate (length iterable) None)) reported
      in if \<not> list_all (\<lambda>i. i \<in> set reported) [0..<length task_batches] then None
         else case result of
                Failure e \<Rightarrow> Some (Inl e)
              | Value v \<Rightarrow> map_option Inr (those v))"

subsection \<open>\<open>EvaluateIfoodModel.run\<close>\<close>

text \<open>
  The mean of a column, as \<open>Series.mean\<close> computes it over real numbers; \<open>None\<close> stands for
  the \<open>NaN\<close> that is the mean of an empty column.
\<close>

definition series_mean :: "real list \<Rightarrow> real option" where
  "series_mean column = (if column = [] then None else Some (sum_list column / real (length column)))"

text \<open>The metric columns of \<open>orders_with_metrics.csv\<close> and the content of \<open>metrics.json\<close>.\<close>

record metric_columns =
  column_average_precision :: "real list"
  column_ndcg_at_5 :: "real list"
  column_ndcg_at_10 :: "real list"
  column_ndcg_at_15 :: "real list"
  column_ndcg_at_20 :: "real list"
  column_ndcg_at_50 :: "real list"

record metrics =
  metric_count :: nat
  metric_average_precision :: "real option"
  metric_ndcg_at_5 :: "real option"
  metric_ndcg_at_10 :: "real option"
  metric_ndcg_at_15 :: "real option"
  metric_ndcg_at_20 :: "real option"
  metric_ndcg_at_50 :: "real option"

text \<open>Sequencing of steps that may raise or not return.\<close>

definition then_do ::
  "(error + 'a) option \<Rightarrow> ('a \<Rightarrow> (error + 'b) option) \<Rightarrow> (error + 'b) option" where
  "then_do result continue =
     (case result of None \<Rightarrow> None | Some (Inl e) \<Rightarrow> Some (Inl e) | Some (Inr x) \<Rightarrow> continue x)"

text \<open>
  \<open>EvaluateIfoodModel.run\<close>, from the \<open>relevance_list\<close> column of the file read on.  The two
  ranking metrics of \<open>recommendation.rank_metrics\<close> are parameters (functions from a
  relevance vector, and a cutoff, to a real number).  \<open>scheduler k\<close> is the order in which
  the chunks of the \<open>k\<close>-th call of \<open>p.map\<close> are reported.  \<open>Pool\<close> refuses a number of
  processes below 1.
\<close>

definition EvaluateIfoodModel_run ::
  "(int list \<Rightarrow> real) \<Rightarrow> (int list \<Rightarrow> nat \<Rightarrow> real) \<Rightarrow> (nat \<Rightarrow> nat list) \<Rightarrow> int \<Rightarrow> string list
     \<Rightarrow> (error + metric_columns \<times> metrics) option" where
  "EvaluateIfoodModel_run average_precision ndcg_at_k scheduler num_processes
       relevance_list_column =
     (if num_processes < 1
      then Some (Inl (ValueError ''Number of processes must be at least 1''))
      else
        let p = nat num_processes in
        then_do (pool_map (scheduler 0) p literal_eval relevance_list_column)
          (\<lambda>relevance_list.
        then_do (pool_map (scheduler 1) p (\<lambda>r. Inr (average_precision r)) relevance_list)
          (\<lambda>ap.
        then_do (pool_map (scheduler 2) p (\<lambda>r. Inr (ndcg_at_k r 5)) relevance_list)
          (\<lambda>ndcg5.
        then_do (pool_map (scheduler 3) p (\<lambda>r. Inr (ndcg_at_k r 10)) relevance_list)
          (\<lambda>ndcg10.
        then_do (pool_map (scheduler 4) p (\<lambda>r. Inr (ndcg_at_k r 15)) relevance_list)
          (\<lambda>ndcg15.
        then_do (pool_map (scheduler 5) p (\<lambda>r. Inr (ndcg_at_k r 20)) relevance_list)
          (\<lambda>ndcg20.
        then_do (pool_map (scheduler 6) p (\<lambda>r. Inr (ndcg_at_k r 50)) relevance_list)
          (\<lambda>ndcg50.
          Some (Inr (\<lparr>column_average_precision = ap, column_ndcg_at_5 = ndcg5,
                       column_ndcg_at_10 = ndcg10, column_ndcg_at_15 = ndcg15,
                       column_ndcg_at_20 = ndcg20, column_ndcg_at_50 = ndcg50\<rparr>,
                     \<lparr>metric_count = length relevance_list_column,
                       metric_average_precision = series_mean ap,
                       metric_ndcg_at_5 = series_mean ndcg5,
                       metric_ndcg_at_10 = series_mean ndcg10,
                       metric_ndcg_at_15 = series_mean ndcg15,
                       metric_ndcg_at_20 = series_mean ndcg20,
                       metric_ndcg_at_50 = series_mean ndcg50\<rparr>))))))))))"

section \<open>Ranking metrics\<close>

text \<open>
  Modelled from the spec: \<open>recommendation.rank_metrics\<close>, from which \<open>ifood.py\<close> imports
  \<open>average_precision\<close> and \<open>ndcg_at_k\<close>, is not among the sources.  The definition below
  follows the specification's words: for each position \<open>i\<close> (counted from 1) with
  \<open>rel[i] = 1\<close>, \<open>precision@i\<close> is the number of 1s in \<open>rel[1..i]\<close> divided by \<open>i\<close>;
  \<open>average_precision\<close> is the mean of these values over all such positions, and 0 if
  there is none.  Values are real numbers.
\<close>

definition precision_at :: "int list \<Rightarrow> nat \<Rightarrow> real" where
  "precision_at rel i = real (length (filter (\<lambda>r. r = 1) (take i rel))) / real i"

definition relevant_positions :: "int list \<Rightarrow> nat list" where
  "relevant_positions rel = filter (\<lambda>i. rel ! (i - 1) = 1) [1..<Suc (length rel)]"

definition average_precision :: "int list \<Rightarrow> real" where
  "average_precision rel =
     (let precisions = map (precision_at rel) (relevant_positions rel)
      in if precisions = [] then 0 else sum_list precisions / real (length precisions))"

section \<open>Properties of the primitives\<close>

lemma list_map_Inr_iff:
  "list_map f xs = Inr ys \<longleftrightarrow> map f xs = map Inr ys"
proof (induction xs arbitrary: ys)
  case Nil
  show ?case by auto
next
  case (Cons a xs)
  show ?case
  proof (cases "f a")
    case (Inl e)
    then show ?thesis by (cases ys) auto
  next
    case fa: (Inr y)
    show ?thesis
    proof (cases "list_map f xs")
      case (Inl e)
      have "map f xs \<noteq> map Inr zs" for zs
        using Cons.IH[of zs] Inl by simp
      with fa Inl show ?thesis by (cases ys) auto
    next
      case (Inr zs)
      then have "map f xs = map Inr zs" using Cons.IH[of zs] by simp
      with fa Inr show ?thesis by (cases ys) (auto simp: inj_map_eq_map)
    qed
  qed
qed

lemma list_map_all_Inr:
  assumes "\<forall>x\<in>set xs. f x = Inr (g x)"
  shows "list_map f xs = Inr (map g xs)"
  using assms by (induction xs) auto

lemma list_map_length:
  "list_map f xs = Inr ys \<Longrightarrow> length ys = length xs"
  by (induction xs arbitrary: ys) (auto split: sum.splits)

lemma list_map_Inl_first:
  "list_map f xs = Inl e \<longleftrightarrow>
     (\<exists>us x vs. xs = us @ x # vs \<and> (\<forall>u\<in>set us. \<exists>y. f u = Inr y) \<and> f x = Inl e)"
proof (induction xs)
  case Nil
  show ?case by simp
next
  case (Cons a xs)
  show ?case
  proof (cases "f a")
    case (Inl e')
    show ?thesis
    proof
      assume "list_map f (a # xs) = Inl e"
      with Inl have "e' = e" by simp
      with Inl have "a # xs = [] @ a # xs \<and> (\<forall>u\<in>set []. \<exists>y. f u = Inr y) \<and> f a = Inl e"
        by simp
      then show "\<exists>us x vs. a # xs = us @ x # vs \<and> (\<forall>u\<in>set us. \<exists>y. f u = Inr y) \<and> f x = Inl e"
        by blast
    next
      assume "\<exists>us x vs. a # xs = us @ x # vs \<and> (\<forall>u\<in>set us. \<exists>y. f u = Inr y) \<and> f x = Inl e"
      then obtain us x vs where h: "a # xs = us @ x # vs"
        "\<forall>u\<in>set us. \<exists>y. f u = Inr y" "f x = Inl e" by blast
      have "us = []"
      proof (cases us)
        case Nil then show ?thesis .
      next
        case (Cons u us')
        with h(1) have "u = a" by simp
        with h(2) Cons Inl show ?thesis by auto
      qed
      with h have "f a = Inl e" by simp
      then show "list_map f (a # xs) = Inl e" by simp
    qed
  next
    case (Inr y)
    have "list_map f (a # xs) = Inl e \<longleftrightarrow> list_map f xs = Inl e"
      using Inr by (simp split: sum.splits)
    also have "\<dots> \<longleftrightarrow>
        (\<exists>us x vs. xs = us @ x # vs \<and> (\<forall>u\<in>set us. \<exists>y. f u = Inr y) \<and> f x = Inl e)"
      by (rule Cons.IH)
    also have "\<dots> \<longleftrightarrow>
        (\<exists>us x vs. a # xs = us @ x # vs \<and> (\<forall>u\<in>set us. \<exists>y. f u = Inr y) \<and> f x = Inl e)"
    proof
      assume "\<exists>us x vs. xs = us @ x # vs \<and> (\<forall>u\<in>set us. \<exists>y. f u = Inr y) \<and> f x = Inl e"
      then obtain us x vs where h: "xs = us @ x # vs"
        "\<forall>u\<in>set us. \<exists>y. f u = Inr y" "f x = Inl e" by blast
      from h Inr have "a # xs = (a # us) @ x # vs \<and> (\<forall>u\<in>set (a # us). \<exists>y. f u = Inr y)
          \<and> f x = Inl e" by simp
      then show "\<exists>us x vs. a # xs = us @ x # vs \<and> (\<forall>u\<in>set us. \<exists>y. f u = Inr y) \<and> f x = Inl e"
        by blast
    next
      assume "\<exists>us x vs. a # xs = us @ x # vs \<and> (\<forall>u\<in>set us. \<exists>y. f u = Inr y) \<and> f x = Inl e"
      then obtain us x vs where h: "a # xs = us @ x # vs"
        "\<forall>u\<in>set us. \<exists>y. f u = Inr y" "f x = Inl e" by blast
      from h(1,3) Inr obtain us' where us: "us = a # us'"
        by (cases us) auto
      with h have "xs = us' @ x # vs \<and> (\<forall>u\<in>set us'. \<exists>y. f u = Inr y) \<and> f x = Inl e"
        by simp
      then show "\<exists>us x vs. xs = us @ x # vs \<and> (\<forall>u\<in>set us. \<exists>y. f u = Inr y) \<and> f x = Inl e"
        by blast
    qed
    finally show ?thesis .
  qed
qed

lemma list_map_some_Inl:
  assumes "x \<in> set xs" "f x = Inl e"
  shows "\<exists>x'\<in>set xs. \<exists>e'. f x' = Inl e' \<and> list_map f xs = Inl e'"
  using assms
proof (induction xs)
  case Nil
  then show ?case by simp
next
  case (Cons a xs)
  show ?case
  proof (cases "f a")
    case (Inl e')
    then show ?thesis by auto
  next
    case (Inr y)
    with Cons.prems have "x \<in> set xs" by auto
    from Cons.IH[OF this Cons.prems(2)] obtain x' e'
      where "x' \<in> set xs" "f x' = Inl e'" "list_map f xs = Inl e'" by blast
    with Inr show ?thesis by auto
  qed
qed

lemma mset_sorted_reverse: "mset (sorted_reverse xs) = mset xs"
  by (simp add: sorted_reverse_def)

lemma length_sorted_reverse: "length (sorted_reverse xs) = length xs"
  by (simp add: sorted_reverse_def)

lemma mset_sorted_merchant_idx_list:
  assumes "length scores = length ms"
  shows "mset (sorted_merchant_idx_list scores ms) = mset ms"
proof -
  have "mset (sorted_merchant_idx_list scores ms) = image_mset snd (mset (zip scores ms))"
    by (simp add: sorted_merchant_idx_list_def mset_sorted_reverse)
  also have "\<dots> = mset (map snd (zip scores ms))" by simp
  also have "\<dots> = mset ms" using assms by simp
  finally show ?thesis .
qed

lemma length_relevance_of: "length (relevance_of c xs) = length xs"
  by (simp add: relevance_of_def)

lemma sum_list_relevance_of: "sum_list (relevance_of c xs) = int (count (mset xs) c)"
  by (induction xs) (auto simp: relevance_of_def)

lemma set_relevance_of: "set (relevance_of c xs) \<subseteq> {0, 1}"
  by (auto simp: relevance_of_def)

lemma getitem_Some: "d k = Some v \<Longrightarrow> getitem mk d k = Inr v"
  by (simp add: getitem_def)

lemma getitem_None: "d k = None \<Longrightarrow> getitem mk d k = Inl (KeyError (mk k))"
  by (simp add: getitem_def)

lemma getitem_Inl_iff: "getitem mk d k = Inl e \<longleftrightarrow> d k = None \<and> e = KeyError (mk k)"
  by (auto simp: getitem_def split: option.splits)

lemma getitem_the: "d k \<noteq> None \<Longrightarrow> getitem mk d k = Inr (the (d k))"
  by (auto simp: getitem_def)

text \<open>The scores looked up for a candidate list, when all of them are in the table.\<close>

lemma lookup_all_present:
  assumes "\<forall>k\<in>set ks. d (h k) \<noteq> None"
  shows "list_map (\<lambda>k. getitem mk d (h k)) ks = Inr (map (\<lambda>k. the (d (h k))) ks)"
  by (rule list_map_all_Inr) (use assms in \<open>simp add: getitem_the\<close>)

lemma lookup_first_missing:
  assumes "k \<in> set ks" "d (h k) = None"
  shows "\<exists>us k' vs. ks = us @ k' # vs \<and> (\<forall>u\<in>set us. d (h u) \<noteq> None) \<and> d (h k') = None
           \<and> list_map (\<lambda>k. getitem mk d (h k)) ks = Inl (KeyError (mk (h k')))"
proof -
  let ?f = "\<lambda>k. getitem mk d (h k)"
  have "?f k = Inl (KeyError (mk (h k)))" using assms(2) by (simp add: getitem_None)
  with assms(1) obtain e where e: "list_map ?f ks = Inl e"
    using list_map_some_Inl[where x = k and xs = ks and f = ?f] by blast
  then obtain us k' vs where s: "ks = us @ k' # vs" "\<forall>u\<in>set us. \<exists>y. ?f u = Inr y"
      "?f k' = Inl e"
    unfolding list_map_Inl_first by blast
  from s(3) have k': "d (h k') = None" "e = KeyError (mk (h k'))"
    by (simp_all add: getitem_Inl_iff)
  have "\<forall>u\<in>set us. d (h u) \<noteq> None"
  proof
    fix u assume "u \<in> set us"
    with s(2) obtain y where "?f u = Inr y" by blast
    then show "d (h u) \<noteq> None" by (auto simp: getitem_def split: option.splits)
  qed
  with s(1) k' e show ?thesis by blast
qed

lemma generate_relevance_list_present:
  assumes "\<forall>m\<in>set ms. tbl (a, m) \<noteq> None"
  shows "generate_relevance_list a c ms tbl =
           Inr (relevance_of c (sorted_merchant_idx_list (map (\<lambda>m. the (tbl (a, m))) ms) ms))"
  unfolding generate_relevance_list_def
  using lookup_all_present[of ms tbl "\<lambda>m. (a, m)" "\<lambda>(a, m). PairKey a m"] assms
  by simp

lemma generate_relevance_list_from_merchant_scores_present:
  assumes "\<forall>m\<in>set ms. pop m \<noteq> None"
  shows "generate_relevance_list_from_merchant_scores c ms pop =
           Inr (relevance_of c (sorted_merchant_idx_list (map (\<lambda>m. the (pop m)) ms) ms))"
  unfolding generate_relevance_list_from_merchant_scores_def
  using lookup_all_present[of ms pop "\<lambda>m. m" ItemKey] assms
  by simp

lemma generate_relevance_list_missing:
  assumes "m \<in> set ms" "tbl (a, m) = None"
  shows "\<exists>us m' vs. ms = us @ m' # vs \<and> (\<forall>u\<in>set us. tbl (a, u) \<noteq> None) \<and> tbl (a, m') = None
           \<and> generate_relevance_list a c ms tbl = Inl (KeyError (PairKey a m'))"
  using lookup_first_missing[where k = m and ks = ms and d = tbl and h = "\<lambda>m. (a, m)"
      and mk = "\<lambda>(a, m). PairKey a m"] assms
  unfolding generate_relevance_list_def by force

lemma generate_relevance_list_Inl:
  assumes "generate_relevance_list a c ms tbl = Inl e"
  shows "\<exists>m\<in>set ms. tbl (a, m) = None \<and> e = KeyError (PairKey a m)"
proof (cases "\<forall>m\<in>set ms. tbl (a, m) \<noteq> None")
  case True
  from generate_relevance_list_present[OF this, of c] assms show ?thesis by simp
next
  case False
  then obtain m where "m \<in> set ms" "tbl (a, m) = None" by blast
  with assms show ?thesis
    using generate_relevance_list_missing[where m = m and ms = ms and tbl = tbl and a = a
        and c = c] by auto
qed

section \<open>Missing scores\<close>

text \<open>
  C4.  If some pair \<open>(account_idx, candidate)\<close> of a transaction is absent from the score
  table, building the relevance list fails with \<open>KeyError\<close> carrying the offending pair,
  which is the first absent pair in candidate order; nothing in the task catches it, so the
  task fails with the same kind of error.  If all pairs are present, the lookup of every
  candidate's score succeeds and a relevance list is returned.
\<close>

theorem missing_pair_is_fatal:
  fixes tbl :: "int \<times> int \<rightharpoonup> 's::linorder" and orders_df :: "'o order list"
  shows "((\<exists>m\<in>set ms. tbl (a, m) = None) \<longrightarrow>
            (\<exists>us m vs. ms = us @ m # vs \<and> (\<forall>u\<in>set us. tbl (a, u) \<noteq> None) \<and> tbl (a, m) = None
               \<and> generate_relevance_list a c ms tbl = Inl (KeyError (PairKey a m))))
       \<and> ((\<forall>m\<in>set ms. tbl (a, m) \<noteq> None) \<longrightarrow>
            list_map (\<lambda>m. getitem (\<lambda>(a, m). PairKey a m) tbl (a, m)) ms
              = Inr (map (\<lambda>m. the (tbl (a, m))) ms)
            \<and> (\<exists>rel. generate_relevance_list a c ms tbl = Inr rel))
       \<and> ((\<exists>row\<in>set (filter_orders orders_df). \<exists>m\<in>set (merchant_idx_list row).
               tbl (account_idx row, m) = None) \<longrightarrow>
            (\<exists>a' m'. tbl (a', m') = None
               \<and> GenerateRelevanceListsForIfoodModel_run tbl orders_df
                   = Inl (KeyError (PairKey a' m'))))"
proof (intro conjI impI)
  assume "\<exists>m\<in>set ms. tbl (a, m) = None"
  then obtain m where "m \<in> set ms" "tbl (a, m) = None" by blast
  then show "\<exists>us m vs. ms = us @ m # vs \<and> (\<forall>u\<in>set us. tbl (a, u) \<noteq> None) \<and> tbl (a, m) = None
               \<and> generate_relevance_list a c ms tbl = Inl (KeyError (PairKey a m))"
    using generate_relevance_list_missing[where m = m and ms = ms and tbl = tbl and a = a
        and c = c] by simp
next
  assume "\<forall>m\<in>set ms. tbl (a, m) \<noteq> None"
  then show "list_map (\<lambda>m. getitem (\<lambda>(a, m). PairKey a m) tbl (a, m)) ms
              = Inr (map (\<lambda>m. the (tbl (a, m))) ms)"
    using lookup_all_present[of ms tbl "\<lambda>m. (a, m)" "\<lambda>(a, m). PairKey a m"] by simp
next
  assume "\<forall>m\<in>set ms. tbl (a, m) \<noteq> None"
  then show "\<exists>rel. generate_relevance_list a c ms tbl = Inr rel"
    by (simp add: generate_relevance_list_present)
next
  let ?g = "\<lambda>row :: 'o order. generate_relevance_list (account_idx row) (merchant_idx row)
                     (merchant_idx_list row) tbl"
  assume "\<exists>row\<in>set (filter_orders orders_df). \<exists>m\<in>set (merchant_idx_list row).
               tbl (account_idx row, m) = None"
  then obtain row m where row: "row \<in> set (filter_orders orders_df)"
      "m \<in> set (merchant_idx_list row)" "tbl (account_idx row, m) = None" by blast
  have "\<exists>e. ?g row = Inl e"
    using generate_relevance_list_missing[where m = m and ms = "merchant_idx_list row"
        and tbl = tbl and a = "account_idx row" and c = "merchant_idx row"] row(2,3) by blast
  then obtain e where "?g row = Inl e" by blast
  with row(1) have "\<exists>x'\<in>set (filter_orders orders_df). \<exists>e'. ?g x' = Inl e'
      \<and> list_map ?g (filter_orders orders_df) = Inl e'"
    using list_map_some_Inl[where x = row and xs = "filter_orders orders_df" and f = ?g]
    by blast
  then obtain row' e' where r': "?g row' = Inl e'" "list_map ?g (filter_orders orders_df) = Inl e'"
    by blast
  from generate_relevance_list_Inl[OF r'(1)] obtain m' where
    "tbl (account_idx row', m') = None" "e' = KeyError (PairKey (account_idx row') m')" by blast
  with r'(2) show "\<exists>a' m'. tbl (a', m') = None
               \<and> GenerateRelevanceListsForIfoodModel_run tbl orders_df
                   = Inl (KeyError (PairKey a' m'))"
    unfolding GenerateRelevanceListsForIfoodModel_run_def by (auto simp: Let_def)
qed

theorem missing_pair_is_fatal_witness:
  "(\<exists>m\<in>set [1, 2, 3]. ([(7, 1) \<mapsto> 5, (7, 3) \<mapsto> 2] :: int \<times> int \<rightharpoonup> real) (7, m) = None)
   \<and> (\<exists>us m vs. [1, 2, 3] = us @ m # vs
         \<and> (\<forall>u\<in>set us. ([(7, 1) \<mapsto> 5, (7, 3) \<mapsto> 2] :: int \<times> int \<rightharpoonup> real) (7, u) \<noteq> None)
         \<and> ([(7, 1) \<mapsto> 5, (7, 3) \<mapsto> 2] :: int \<times> int \<rightharpoonup> real) (7, m) = None
         \<and> generate_relevance_list 7 3 [1, 2, 3] ([(7, 1) \<mapsto> 5, (7, 3) \<mapsto> 2] :: int \<times> int \<rightharpoonup> real)
             = Inl (KeyError (PairKey 7 m)))
   \<and> \<not> (\<exists>m\<in>set [1, 3]. ([(7, 1) \<mapsto> 5, (7, 3) \<mapsto> 2] :: int \<times> int \<rightharpoonup> real) (7, m) = None)
   \<and> (\<exists>rel. generate_relevance_list 7 3 [1, 3] ([(7, 1) \<mapsto> 5, (7, 3) \<mapsto> 2] :: int \<times> int \<rightharpoonup> real) = Inr rel)
   \<and> (\<exists>row\<in>set (filter_orders
          [\<lparr>order_id = 10::nat, account_idx = 7, merchant_idx = 3, merchant_idx_list = [1, 2, 3]\<rparr>]).
        \<exists>m\<in>set (merchant_idx_list row).
          ([(7, 1) \<mapsto> 5, (7, 3) \<mapsto> 2] :: int \<times> int \<rightharpoonup> real) (account_idx row, m) = None)
   \<and> (\<exists>a' m'. ([(7, 1) \<mapsto> 5, (7, 3) \<mapsto> 2] :: int \<times> int \<rightharpoonup> real) (a', m') = None
        \<and> GenerateRelevanceListsForIfoodModel_run ([(7, 1) \<mapsto> 5, (7, 3) \<mapsto> 2] :: int \<times> int \<rightharpoonup> real)
            [\<lparr>order_id = 10::nat, account_idx = 7, merchant_idx = 3, merchant_idx_list = [1, 2, 3]\<rparr>]
            = Inl (KeyError (PairKey a' m')))"
proof -
  let ?tbl = "[(7, 1) \<mapsto> 5::real, (7, 3) \<mapsto> 2] :: int \<times> int \<rightharpoonup> real"
  let ?orders = "[\<lparr>order_id = 10::nat, account_idx = 7, merchant_idx = 3,
                    merchant_idx_list = [1, 2, 3]\<rparr>]"
  have h1: "\<exists>m\<in>set [1, 2, 3]. ?tbl (7, m) = None" by simp
  have h2: "\<forall>m\<in>set [1, 3]. ?tbl (7, m) \<noteq> None" by simp
  have h3: "\<exists>row\<in>set (filter_orders ?orders). \<exists>m\<in>set (merchant_idx_list row).
              ?tbl (account_idx row, m) = None"
    by (simp add: filter_orders_def)
  note a = missing_pair_is_fatal[of "[1, 2, 3]" ?tbl 7 3 ?orders]
  note b = missing_pair_is_fatal[of "[1, 3]" ?tbl 7 3 ?orders]
  from a h1 have c1: "\<exists>us m vs. [1, 2, 3] = us @ m # vs
         \<and> (\<forall>u\<in>set us. ?tbl (7, u) \<noteq> None) \<and> ?tbl (7, m) = None
         \<and> generate_relevance_list 7 3 [1, 2, 3] ?tbl = Inl (KeyError (PairKey 7 m))"
    by blast
  from b h2 have c2: "\<exists>rel. generate_relevance_list 7 3 [1, 3] ?tbl = Inr rel"
    by blast
  from a h3 have c3: "\<exists>a' m'. ?tbl (a', m') = None
        \<and> GenerateRelevanceListsForIfoodModel_run ?tbl ?orders = Inl (KeyError (PairKey a' m'))"
    by blast
  from h1 h2 h3 c1 c2 c3 show ?thesis by blast
qed

section \<open>The order of the ranked candidates\<close>

lemma count_mset_list: "count (mset xs) c = count_list xs c"
  by (induction xs) auto

lemma sorted_reverse_sorted: "sorted_wrt (\<lambda>x y. y \<le> x) (sorted_reverse xs)"
  unfolding sorted_reverse_def
  by (simp add: sorted_wrt_rev)

lemma sorted_reverse_mset_cong:
  assumes "mset xs = mset ys"
  shows "sorted_reverse xs = sorted_reverse ys"
proof -
  have "mset (rev xs) = mset (rev ys)" using assms by simp
  then have "sort (rev xs) = sort (rev ys)"
    by (metis mset_sort sorted_sort properties_for_sort)
  then show ?thesis by (simp add: sorted_reverse_def)
qed

lemma zip_map_self: "zip (map f xs) xs = map (\<lambda>x. (f x, x)) xs"
  by (induction xs) auto

lemma sorted_merchant_idx_list_by_score:
  fixes score :: "int \<Rightarrow> 's::linorder" and ms :: "int list"
  defines "xs \<equiv> sorted_merchant_idx_list (map score ms) ms"
  shows "mset xs = mset ms"
    and "sorted_wrt (\<lambda>x y. score y < score x \<or> (score y = score x \<and> y \<le> x)) xs"
proof -
  let ?g = "\<lambda>m. (score m, m)"
  let ?ps = "sorted_reverse (map ?g ms)"
  have xs: "xs = map snd ?ps" by (simp add: xs_def sorted_merchant_idx_list_def zip_map_self)
  show "mset xs = mset ms" unfolding xs_def
    by (rule mset_sorted_merchant_idx_list) simp
  have "set ?ps = ?g ` set ms"
    by (metis mset_sorted_reverse set_mset_mset set_map)
  then have "\<forall>p\<in>set ?ps. p = ?g (snd p)" by auto
  then have ps: "?ps = map ?g xs" unfolding xs
    by (simp add: map_idI)
  have "sorted_wrt (\<lambda>x y. y \<le> x) (map ?g xs)"
    using sorted_reverse_sorted[of "map ?g ms"] ps by simp
  then have "sorted_wrt (\<lambda>x y. ?g y \<le> ?g x) xs"
    by (simp add: sorted_wrt_map)
  then show "sorted_wrt (\<lambda>x y. score y < score x \<or> (score y = score x \<and> y \<le> x)) xs"
    by (rule sorted_wrt_mono_rel[rotated]) (auto simp: less_eq_prod_def)
qed

lemma sorted_merchant_idx_list_mset_cong:
  fixes score :: "int \<Rightarrow> 's::linorder"
  assumes "mset ms = mset ms'"
  shows "sorted_merchant_idx_list (map score ms) ms = sorted_merchant_idx_list (map score ms') ms'"
proof -
  have "mset (map (\<lambda>m. (score m, m)) ms) = mset (map (\<lambda>m. (score m, m)) ms')"
    using assms by simp
  then have "sorted_reverse (map (\<lambda>m. (score m, m)) ms)
      = sorted_reverse (map (\<lambda>m. (score m, m)) ms')"
    by (rule sorted_reverse_mset_cong)
  then show ?thesis
    by (simp add: sorted_merchant_idx_list_def zip_map_self)
qed

text \<open>
  C1 (as stated).  With two candidates of equal score the code does not keep their order
  in the candidate list: for candidates \<open>[1, 2]\<close>, both scored 5, and ordered merchant 1 the
  code ranks candidate 2 first and returns \<open>[0, 1]\<close>, where a stable sort by descending
  score keeps \<open>[1, 2]\<close> and gives \<open>[1, 0]\<close>.
\<close>

theorem tie_break_counterexample:
  "generate_relevance_list 0 1 [1, 2]
       ([(0, 1) \<mapsto> 5, (0, 2) \<mapsto> 5] :: int \<times> int \<rightharpoonup> real) = Inr [0, 1]
   \<and> generate_relevance_list_stable 0 1 [1, 2]
       ([(0, 1) \<mapsto> 5, (0, 2) \<mapsto> 5] :: int \<times> int \<rightharpoonup> real) = Inr [1, 0]
   \<and> sorted_merchant_idx_list [5, 5 :: real] [1, 2] = [2, 1]
   \<and> stable_sorted_merchant_idx_list [5, 5 :: real] [1, 2] = [1, 2]"
  by (simp add: generate_relevance_list_def generate_relevance_list_stable_def getitem_def
      sorted_merchant_idx_list_def stable_sorted_merchant_idx_list_def stable_sort_desc_def
      sorted_reverse_def relevance_of_def)

text \<open>
  C1 (amended).  When no score is NaN, so that the scores are linearly ordered (the type
  \<open>'s\<close> of the scores below), the builder sorts the pairs (score, candidate id) in
  descending lexicographic order: the ranked candidates are a permutation of the
  candidate list in which a candidate with a higher score comes first and, among
  candidates with equal scores, the one with the larger id comes first.  The position of
  a candidate in the input list plays no role: any reordering of the candidate list gives
  the same result.  Nothing is stated for a score table that holds a NaN: every
  comparison with a NaN is false, the pairs are then not linearly ordered, and the order
  that \<open>sorted\<close> gives depends on the positions in the input list.
\<close>

theorem tie_break_by_candidate_id:
  fixes tbl :: "int \<times> int \<rightharpoonup> 's::linorder"
  assumes "\<forall>m\<in>set ms. tbl (a, m) \<noteq> None"
  shows "\<exists>xs. generate_relevance_list a c ms tbl = Inr (relevance_of c xs)
           \<and> mset xs = mset ms
           \<and> (\<forall>i j. i < j \<and> j < length xs \<longrightarrow>
                 the (tbl (a, xs ! j)) < the (tbl (a, xs ! i))
               \<or> (the (tbl (a, xs ! j)) = the (tbl (a, xs ! i)) \<and> xs ! j \<le> xs ! i))
           \<and> (\<forall>ms'. mset ms' = mset ms \<longrightarrow>
                 generate_relevance_list a c ms' tbl = generate_relevance_list a c ms tbl)"
proof -
  let ?score = "\<lambda>m. the (tbl (a, m))"
  let ?xs = "sorted_merchant_idx_list (map ?score ms) ms"
  have gen: "generate_relevance_list a c ms tbl = Inr (relevance_of c ?xs)"
    using assms by (rule generate_relevance_list_present)
  have perm: "mset ?xs = mset ms"
    by (rule sorted_merchant_idx_list_by_score(1))
  have "sorted_wrt (\<lambda>x y. ?score y < ?score x \<or> (?score y = ?score x \<and> y \<le> x)) ?xs"
    by (rule sorted_merchant_idx_list_by_score(2))
  then have ord: "\<forall>i j. i < j \<and> j < length ?xs \<longrightarrow>
      ?score (?xs ! j) < ?score (?xs ! i)
      \<or> (?score (?xs ! j) = ?score (?xs ! i) \<and> ?xs ! j \<le> ?xs ! i)"
    by (simp add: sorted_wrt_iff_nth_less)
  have cong: "\<forall>ms'. mset ms' = mset ms \<longrightarrow>
      generate_relevance_list a c ms' tbl = generate_relevance_list a c ms tbl"
  proof (intro allI impI)
    fix ms' :: "int list"
    assume m: "mset ms' = mset ms"
    then have "set ms' = set ms" by (metis set_mset_mset)
    with assms have "\<forall>m\<in>set ms'. tbl (a, m) \<noteq> None" by simp
    then have "generate_relevance_list a c ms' tbl
        = Inr (relevance_of c (sorted_merchant_idx_list (map ?score ms') ms'))"
      by (rule generate_relevance_list_present)
    also have "sorted_merchant_idx_list (map ?score ms') ms' = ?xs"
      using m by (rule sorted_merchant_idx_list_mset_cong)
    finally show "generate_relevance_list a c ms' tbl = generate_relevance_list a c ms tbl"
      using gen by simp
  qed
  from gen perm ord cong show ?thesis by blast
qed

theorem tie_break_by_candidate_id_witness:
  "\<not> (\<exists>m\<in>set [1, 2]. ([(0, 1) \<mapsto> 5, (0, 2) \<mapsto> 5] :: int \<times> int \<rightharpoonup> real) (0, m) = None)
   \<and> (\<exists>xs. generate_relevance_list 0 1 [1, 2]
              ([(0, 1) \<mapsto> 5, (0, 2) \<mapsto> 5] :: int \<times> int \<rightharpoonup> real) = Inr (relevance_of 1 xs)
         \<and> mset xs = mset [1, 2])
   \<and> generate_relevance_list 0 1 [2, 1]
         ([(0, 1) \<mapsto> 5, (0, 2) \<mapsto> 5] :: int \<times> int \<rightharpoonup> real)
       = generate_relevance_list 0 1 [1, 2]
           ([(0, 1) \<mapsto> 5, (0, 2) \<mapsto> 5] :: int \<times> int \<rightharpoonup> real)"
proof -
  let ?tbl = "[(0, 1) \<mapsto> 5, (0, 2) \<mapsto> 5] :: int \<times> int \<rightharpoonup> real"
  have h: "\<forall>m\<in>set [1, 2]. ?tbl (0, m) \<noteq> None" by auto
  have p: "mset [2, 1::int] = mset [1, 2]" by simp
  from tie_break_by_candidate_id[OF h, of 1] obtain xs where
    x: "generate_relevance_list 0 1 [1, 2] ?tbl = Inr (relevance_of 1 xs)"
       "mset xs = mset [1, 2]"
       "\<forall>ms'. mset ms' = mset [1, 2] \<longrightarrow>
          generate_relevance_list 0 1 ms' ?tbl = generate_relevance_list 0 1 [1, 2] ?tbl"
    by blast
  from x(3) p have "generate_relevance_list 0 1 [2, 1] ?tbl
      = generate_relevance_list 0 1 [1, 2] ?tbl" by blast
  with h x(1,2) show ?thesis by blast
qed

section \<open>Length and sum of the relevance vector\<close>

text \<open>
  C2.  When the ordered merchant occurs exactly once among the candidates and the score
  table covers every candidate, each score-based builder returns a vector of 0s and 1s
  as long as the candidate list whose elements sum to 1.
\<close>

theorem relevance_vector_length_and_sum:
  fixes tbl :: "int \<times> int \<rightharpoonup> 's::linorder" and pop :: "int \<rightharpoonup> 't::linorder"
  assumes once: "count_list ms c = 1"
  shows "((\<forall>m\<in>set ms. tbl (a, m) \<noteq> None) \<longrightarrow>
            (\<exists>rel. generate_relevance_list a c ms tbl = Inr rel
               \<and> length rel = length ms \<and> sum_list rel = 1 \<and> set rel \<subseteq> {0, 1}))
       \<and> ((\<forall>m\<in>set ms. pop m \<noteq> None) \<longrightarrow>
            (\<exists>rel. generate_relevance_list_from_merchant_scores c ms pop = Inr rel
               \<and> length rel = length ms \<and> sum_list rel = 1 \<and> set rel \<subseteq> {0, 1}))"
proof -
  have key: "length (relevance_of c (sorted_merchant_idx_list scores ms)) = length ms
      \<and> sum_list (relevance_of c (sorted_merchant_idx_list scores ms)) = 1
      \<and> set (relevance_of c (sorted_merchant_idx_list scores ms)) \<subseteq> {0, 1}"
    if len: "length scores = length ms" for scores :: "'x::linorder list"
  proof -
    have m: "mset (sorted_merchant_idx_list scores ms) = mset ms"
      using len by (rule mset_sorted_merchant_idx_list)
    then have "length (sorted_merchant_idx_list scores ms) = length ms"
      by (metis size_mset)
    moreover have "sum_list (relevance_of c (sorted_merchant_idx_list scores ms)) = 1"
      using once by (simp add: sum_list_relevance_of m count_mset_list)
    ultimately show ?thesis
      using set_relevance_of[of c "sorted_merchant_idx_list scores ms"]
      by (simp add: length_relevance_of)
  qed
  show ?thesis
  proof (intro conjI impI)
    assume "\<forall>m\<in>set ms. tbl (a, m) \<noteq> None"
    then have "generate_relevance_list a c ms tbl =
           Inr (relevance_of c (sorted_merchant_idx_list (map (\<lambda>m. the (tbl (a, m))) ms) ms))"
      by (rule generate_relevance_list_present)
    with key[of "map (\<lambda>m. the (tbl (a, m))) ms"]
    show "\<exists>rel. generate_relevance_list a c ms tbl = Inr rel
               \<and> length rel = length ms \<and> sum_list rel = 1 \<and> set rel \<subseteq> {0, 1}"
      by simp
  next
    assume "\<forall>m\<in>set ms. pop m \<noteq> None"
    then have "generate_relevance_list_from_merchant_scores c ms pop =
           Inr (relevance_of c (sorted_merchant_idx_list (map (\<lambda>m. the (pop m)) ms) ms))"
      by (rule generate_relevance_list_from_merchant_scores_present)
    with key[of "map (\<lambda>m. the (pop m)) ms"]
    show "\<exists>rel. generate_relevance_list_from_merchant_scores c ms pop = Inr rel
               \<and> length rel = length ms \<and> sum_list rel = 1 \<and> set rel \<subseteq> {0, 1}"
      by simp
  qed
qed

theorem relevance_vector_length_and_sum_witness:
  "count_list [1, 2, 3] (3::int) = 1
   \<and> (\<exists>rel. generate_relevance_list 7 3 [1, 2, 3]
         ([(7, 1) \<mapsto> 1, (7, 2) \<mapsto> 9, (7, 3) \<mapsto> 5] :: int \<times> int \<rightharpoonup> real) = Inr rel
         \<and> length rel = length [1, 2, 3::int] \<and> sum_list rel = 1 \<and> set rel \<subseteq> {0, 1})
   \<and> (\<exists>rel. generate_relevance_list_from_merchant_scores 3 [1, 2, 3]
         ([1 \<mapsto> 4, 2 \<mapsto> 0, 3 \<mapsto> 4] :: int \<rightharpoonup> int) = Inr rel
         \<and> length rel = length [1, 2, 3::int] \<and> sum_list rel = 1 \<and> set rel \<subseteq> {0, 1})"
proof -
  let ?tbl = "[(7, 1) \<mapsto> 1, (7, 2) \<mapsto> 9, (7, 3) \<mapsto> 5] :: int \<times> int \<rightharpoonup> real"
  let ?pop = "[1 \<mapsto> 4, 2 \<mapsto> 0, 3 \<mapsto> 4] :: int \<rightharpoonup> int"
  have h0: "count_list [1, 2, 3] (3::int) = 1" by simp
  have h1: "\<forall>m\<in>set [1, 2, 3]. ?tbl (7, m) \<noteq> None" by auto
  have h2: "\<forall>m\<in>set [1, 2, 3]. ?pop m \<noteq> None" by auto
  from relevance_vector_length_and_sum[OF h0, of ?tbl 7 ?pop] h0 h1 h2
  show ?thesis by blast
qed

section \<open>The shuffle\<close>

lemma shuffle_loop_perm:
  assumes "\<forall>g i. fst (random_interval g i) \<le> i" "k < length x \<or> k = 0"
  shows "mset (fst (shuffle_loop random_interval k g x)) = mset x"
  using assms(2)
proof (induction k arbitrary: g x)
  case 0
  show ?case by simp
next
  case (Suc k)
  obtain j g' where r: "random_interval g (Suc k) = (j, g')" by (cases "random_interval g (Suc k)")
  with assms(1) have j: "j \<le> Suc k" by (metis fst_conv)
  let ?x' = "x[Suc k := x ! j, j := x ! Suc k]"
  from Suc.prems have k: "Suc k < length x" by simp
  with j have "mset ?x' = mset x" by (simp add: mset_swap)
  moreover have "k < length ?x' \<or> k = 0" using k by simp
  then have "mset (fst (shuffle_loop random_interval k g' ?x')) = mset ?x'"
    by (rule Suc.IH)
  ultimately show ?case using r by simp
qed

lemma shuffle_elements_perm:
  assumes "\<forall>g i. fst (random_interval g i) \<le> i"
  shows "mset (fst (shuffle_elements random_interval g x)) = mset x"
  unfolding shuffle_elements_def
  by (rule shuffle_loop_perm[OF assms]) (cases x; simp)

lemma random_call_read_only:
  assumes "\<not> writeable x"
  shows "generate_random_relevance_list ri c x g
     = \<lparr>outcome = Inl (ValueError ''array is read-only''),
        merchant_idx_list_after = x, generator_after = g\<rparr>"
  using assms by (simp add: generate_random_relevance_list_def shuffle_def)

lemma random_call_writeable:
  assumes "writeable x"
  shows "generate_random_relevance_list ri c x g
     = \<lparr>outcome = Inr (relevance_of c (fst (shuffle_elements ri g (elements x)))),
        merchant_idx_list_after = x\<lparr>elements := fst (shuffle_elements ri g (elements x))\<rparr>,
        generator_after = snd (shuffle_elements ri g (elements x))\<rparr>"
  using assms
  by (cases "shuffle_elements ri g (elements x)")
    (simp add: generate_random_relevance_list_def shuffle_def)

lemma starmap_random_Inr:
  assumes "starmap_random ri w rows g = Inr (relevance_list, g')"
  shows "length relevance_list = length rows"
  using assms
proof (induction rows arbitrary: g relevance_list g')
  case Nil
  then show ?case by simp
next
  case (Cons row rows)
  let ?call = "generate_random_relevance_list ri (merchant_idx row)
                 \<lparr>elements = merchant_idx_list row, writeable = w row\<rparr> g"
  from Cons.prems obtain relevance rest g1 where r:
    "starmap_random ri w rows (generator_after ?call) = Inr (rest, g1)"
    "relevance_list = relevance # rest"
    by (auto simp: Let_def split: sum.splits prod.splits)
  from Cons.IH[OF r(1)] r(2) show ?case by simp
qed

lemma starmap_random_Inl:
  assumes "starmap_random ri w rows g = Inl e"
  shows "e = ValueError ''array is read-only'' \<and> (\<exists>row\<in>set rows. \<not> w row)"
  using assms
proof (induction rows arbitrary: g)
  case Nil
  then show ?case by simp
next
  case (Cons row rows)
  let ?x = "\<lparr>elements = merchant_idx_list row, writeable = w row\<rparr>"
  show ?case
  proof (cases "w row")
    case False
    then have "generate_random_relevance_list ri (merchant_idx row) ?x g
        = \<lparr>outcome = Inl (ValueError ''array is read-only''),
           merchant_idx_list_after = ?x, generator_after = g\<rparr>"
      by (simp add: random_call_read_only)
    with Cons.prems False show ?thesis by (simp add: Let_def)
  next
    case True
    then have c: "generate_random_relevance_list ri (merchant_idx row) ?x g
        = \<lparr>outcome = Inr (relevance_of (merchant_idx row)
              (fst (shuffle_elements ri g (elements ?x)))),
           merchant_idx_list_after = ?x\<lparr>elements := fst (shuffle_elements ri g (elements ?x))\<rparr>,
           generator_after = snd (shuffle_elements ri g (elements ?x))\<rparr>"
      by (simp add: random_call_writeable)
    with Cons.prems have
      "starmap_random ri w rows (snd (shuffle_elements ri g (elements ?x))) = Inl e"
      by (simp add: Let_def split: sum.splits prod.splits)
    from Cons.IH[OF this] show ?thesis by auto
  qed
qed

lemma starmap_random_writeable:
  assumes "\<forall>row\<in>set rows. w row"
  shows "\<exists>relevance_list g'. starmap_random ri w rows g = Inr (relevance_list, g')"
proof (cases "starmap_random ri w rows g")
  case (Inl e)
  from starmap_random_Inl[OF this] assms show ?thesis by blast
next
  case (Inr r)
  then show ?thesis by (cases r) simp
qed

section \<open>The exclusion filter\<close>

lemma length_filter_orders:
  "length (filter_orders orders_df)
     = length orders_df
       - length (filter (\<lambda>row. merchant_idx row \<notin> set (merchant_idx_list row)) orders_df)"
  unfolding filter_orders_def
  using sum_length_filter_compl[of "\<lambda>row. merchant_idx row \<in> set (merchant_idx_list row)" orders_df]
  by simp

lemma model_run_Inr:
  fixes tbl :: "int \<times> int \<rightharpoonup> 's::linorder" and orders_df :: "'o order list"
  assumes "GenerateRelevanceListsForIfoodModel_run tbl orders_df = Inr out"
  shows "map fst out = map order_id (filter_orders orders_df)"
proof -
  let ?g = "\<lambda>row :: 'o order. generate_relevance_list (account_idx row) (merchant_idx row)
                     (merchant_idx_list row) tbl"
  from assms obtain rels where r: "list_map ?g (filter_orders orders_df) = Inr rels"
      "out = zip (map order_id (filter_orders orders_df)) rels"
    unfolding GenerateRelevanceListsForIfoodModel_run_def
    by (auto simp: Let_def split: sum.splits)
  from r(1) have "length rels = length (filter_orders orders_df)" by (rule list_map_length)
  with r(2) show ?thesis by simp
qed

lemma model_run_Inl:
  fixes tbl :: "int \<times> int \<rightharpoonup> 's::linorder" and orders_df :: "'o order list"
  assumes "GenerateRelevanceListsForIfoodModel_run tbl orders_df = Inl e"
  shows "\<exists>row\<in>set (filter_orders orders_df). \<exists>m\<in>set (merchant_idx_list row).
           tbl (account_idx row, m) = None \<and> e = KeyError (PairKey (account_idx row) m)"
proof -
  let ?g = "\<lambda>row :: 'o order. generate_relevance_list (account_idx row) (merchant_idx row)
                     (merchant_idx_list row) tbl"
  from assms have "list_map ?g (filter_orders orders_df) = Inl e"
    unfolding GenerateRelevanceListsForIfoodModel_run_def
    by (auto simp: Let_def split: sum.splits)
  then obtain us row vs where "filter_orders orders_df = us @ row # vs" "?g row = Inl e"
    unfolding list_map_Inl_first by blast
  then have "row \<in> set (filter_orders orders_df)" "?g row = Inl e" by simp_all
  with generate_relevance_list_Inl[of "account_idx row" "merchant_idx row"
      "merchant_idx_list row" tbl e]
  show ?thesis by blast
qed

lemma model_run_covered:
  fixes tbl :: "int \<times> int \<rightharpoonup> 's::linorder" and orders_df :: "'o order list"
  assumes "\<forall>row\<in>set (filter_orders orders_df). \<forall>m\<in>set (merchant_idx_list row).
             tbl (account_idx row, m) \<noteq> None"
  shows "\<exists>out. GenerateRelevanceListsForIfoodModel_run tbl orders_df = Inr out"
proof (cases "GenerateRelevanceListsForIfoodModel_run tbl orders_df")
  case (Inl e)
  from model_run_Inl[OF this] assms show ?thesis by blast
next
  case (Inr out)
  then show ?thesis by blast
qed

lemma random_run_Inr:
  assumes "GenerateRandomRelevanceLists_run ri w orders_df g = Inr (out, g')"
  shows "map fst out = map order_id (filter_orders orders_df)"
proof -
  from assms obtain rels where r: "starmap_random ri w (filter_orders orders_df) g = Inr (rels, g')"
      "out = zip (map order_id (filter_orders orders_df)) rels"
    unfolding GenerateRandomRelevanceLists_run_def
    by (auto simp: Let_def split: sum.splits prod.splits)
  from r(1) have "length rels = length (filter_orders orders_df)" by (rule starmap_random_Inr)
  with r(2) show ?thesis by simp
qed

lemma random_run_Inl:
  assumes "GenerateRandomRelevanceLists_run ri w orders_df g = Inl e"
  shows "e = ValueError ''array is read-only'' \<and> (\<exists>row\<in>set (filter_orders orders_df). \<not> w row)"
proof -
  from assms have "starmap_random ri w (filter_orders orders_df) g = Inl e"
    unfolding GenerateRandomRelevanceLists_run_def
    by (auto simp: Let_def split: sum.splits prod.splits)
  then show ?thesis by (rule starmap_random_Inl)
qed

lemma random_run_writeable:
  assumes "\<forall>row\<in>set (filter_orders orders_df). w row"
  shows "\<exists>out g'. GenerateRandomRelevanceLists_run ri w orders_df g = Inr (out, g')"
proof -
  from starmap_random_writeable[OF assms, of ri g] obtain rels g' where
    "starmap_random ri w (filter_orders orders_df) g = Inr (rels, g')" by blast
  then show ?thesis by (simp add: GenerateRandomRelevanceLists_run_def Let_def)
qed

text \<open>
  C3.  The rows written by the model task and by the random task are exactly the input
  rows whose ordered merchant is among their candidates, in input order; their number is
  the number of input rows minus the number of rows that fail the test.  Dropped rows
  raise nothing: a task fails only on a row that was kept (the model task with a
  \<open>KeyError\<close> for a pair of that row that has no score, the random task with the
  \<open>ValueError\<close> of the shuffle on a candidate array that cannot be written), and it
  completes whenever the kept rows give no such cause.
\<close>

theorem excluded_orders_are_dropped:
  fixes tbl :: "int \<times> int \<rightharpoonup> 's::linorder" and orders_df :: "'o order list"
  shows "(\<forall>out. GenerateRelevanceListsForIfoodModel_run tbl orders_df = Inr out \<longrightarrow>
            map fst out
              = map order_id (filter (\<lambda>row. merchant_idx row \<in> set (merchant_idx_list row)) orders_df)
            \<and> length out = length orders_df
                - length (filter (\<lambda>row. merchant_idx row \<notin> set (merchant_idx_list row)) orders_df))
       \<and> (\<forall>e. GenerateRelevanceListsForIfoodModel_run tbl orders_df = Inl e \<longrightarrow>
            (\<exists>row\<in>set orders_df. merchant_idx row \<in> set (merchant_idx_list row)
               \<and> (\<exists>m\<in>set (merchant_idx_list row). tbl (account_idx row, m) = None
                     \<and> e = KeyError (PairKey (account_idx row) m))))
       \<and> ((\<forall>row\<in>set orders_df. merchant_idx row \<in> set (merchant_idx_list row) \<longrightarrow>
               (\<forall>m\<in>set (merchant_idx_list row). tbl (account_idx row, m) \<noteq> None)) \<longrightarrow>
            (\<exists>out. GenerateRelevanceListsForIfoodModel_run tbl orders_df = Inr out))
       \<and> (\<forall>out g'. GenerateRandomRelevanceLists_run random_interval writeable_cell orders_df g
              = Inr (out, g') \<longrightarrow>
            map fst out
              = map order_id (filter (\<lambda>row. merchant_idx row \<in> set (merchant_idx_list row)) orders_df)
            \<and> length out = length orders_df
                - length (filter (\<lambda>row. merchant_idx row \<notin> set (merchant_idx_list row)) orders_df))
       \<and> (\<forall>e. GenerateRandomRelevanceLists_run random_interval writeable_cell orders_df g
              = Inl e \<longrightarrow>
            e = ValueError ''array is read-only''
            \<and> (\<exists>row\<in>set orders_df. merchant_idx row \<in> set (merchant_idx_list row)
                  \<and> \<not> writeable_cell row))
       \<and> ((\<forall>row\<in>set orders_df. merchant_idx row \<in> set (merchant_idx_list row) \<longrightarrow>
               writeable_cell row) \<longrightarrow>
            (\<exists>out g'. GenerateRandomRelevanceLists_run random_interval writeable_cell orders_df g
               = Inr (out, g')))"
proof (intro conjI allI impI)
  fix out
  assume a: "GenerateRelevanceListsForIfoodModel_run tbl orders_df = Inr out"
  from model_run_Inr[OF a]
  show m: "map fst out
      = map order_id (filter (\<lambda>row. merchant_idx row \<in> set (merchant_idx_list row)) orders_df)"
    by (simp add: filter_orders_def)
  have "length out = length (map fst out)" by simp
  also have "\<dots> = length (filter_orders orders_df)"
    using model_run_Inr[OF a] by simp
  finally show "length out = length orders_df
      - length (filter (\<lambda>row. merchant_idx row \<notin> set (merchant_idx_list row)) orders_df)"
    by (simp add: length_filter_orders)
next
  fix e
  assume "GenerateRelevanceListsForIfoodModel_run tbl orders_df = Inl e"
  from model_run_Inl[OF this]
  show "\<exists>row\<in>set orders_df. merchant_idx row \<in> set (merchant_idx_list row)
               \<and> (\<exists>m\<in>set (merchant_idx_list row). tbl (account_idx row, m) = None
                     \<and> e = KeyError (PairKey (account_idx row) m))"
    by (auto simp: filter_orders_def)
next
  assume "\<forall>row\<in>set orders_df. merchant_idx row \<in> set (merchant_idx_list row) \<longrightarrow>
               (\<forall>m\<in>set (merchant_idx_list row). tbl (account_idx row, m) \<noteq> None)"
  then have "\<forall>row\<in>set (filter_orders orders_df). \<forall>m\<in>set (merchant_idx_list row).
             tbl (account_idx row, m) \<noteq> None"
    by (simp add: filter_orders_def)
  then show "\<exists>out. GenerateRelevanceListsForIfoodModel_run tbl orders_df = Inr out"
    by (rule model_run_covered)
next
  fix out g'
  assume a: "GenerateRandomRelevanceLists_run random_interval writeable_cell orders_df g
      = Inr (out, g')"
  from random_run_Inr[OF a]
  show "map fst out
      = map order_id (filter (\<lambda>row. merchant_idx row \<in> set (merchant_idx_list row)) orders_df)"
    by (simp add: filter_orders_def)
  have "length out = length (map fst out)" by simp
  also have "\<dots> = length (filter_orders orders_df)"
    using random_run_Inr[OF a] by simp
  finally show "length out = length orders_df
      - length (filter (\<lambda>row. merchant_idx row \<notin> set (merchant_idx_list row)) orders_df)"
    by (simp add: length_filter_orders)
next
  fix e
  assume a: "GenerateRandomRelevanceLists_run random_interval writeable_cell orders_df g = Inl e"
  from random_run_Inl[OF a] show "e = ValueError ''array is read-only''" by simp
  from random_run_Inl[OF a]
  show "\<exists>row\<in>set orders_df. merchant_idx row \<in> set (merchant_idx_list row)
      \<and> \<not> writeable_cell row"
    by (auto simp: filter_orders_def)
next
  assume "\<forall>row\<in>set orders_df. merchant_idx row \<in> set (merchant_idx_list row) \<longrightarrow>
               writeable_cell row"
  then have "\<forall>row\<in>set (filter_orders orders_df). writeable_cell row"
    by (simp add: filter_orders_def)
  then show "\<exists>out g'. GenerateRandomRelevanceLists_run random_interval writeable_cell
      orders_df g = Inr (out, g')"
    by (rule random_run_writeable)
qed

theorem excluded_orders_are_dropped_witness:
  "(\<exists>out. GenerateRelevanceListsForIfoodModel_run
             ([(7, 1) \<mapsto> 1, (7, 2) \<mapsto> 9, (7, 3) \<mapsto> 5] :: int \<times> int \<rightharpoonup> real)
             [\<lparr>order_id = 10::nat, account_idx = 7, merchant_idx = 3, merchant_idx_list = [1, 2, 3]\<rparr>,
              \<lparr>order_id = 11, account_idx = 8, merchant_idx = 4, merchant_idx_list = [1, 2]\<rparr>]
           = Inr out
         \<and> map fst out = [10] \<and> length out = 1)
   \<and> (\<exists>out g'. GenerateRandomRelevanceLists_run (\<lambda>(g::unit) (i::nat). (0::nat, g))
             (\<lambda>row. True)
             [\<lparr>order_id = 10::nat, account_idx = 7, merchant_idx = 3, merchant_idx_list = [1, 2, 3]\<rparr>,
              \<lparr>order_id = 11, account_idx = 8, merchant_idx = 4, merchant_idx_list = [1, 2]\<rparr>] ()
           = Inr (out, g')
         \<and> map fst out = [10] \<and> length out = 1)
   \<and> GenerateRandomRelevanceLists_run (\<lambda>(g::unit) (i::nat). (0::nat, g))
             (\<lambda>row. False)
             [\<lparr>order_id = 10::nat, account_idx = 7, merchant_idx = 3, merchant_idx_list = [1, 2, 3]\<rparr>,
              \<lparr>order_id = 11, account_idx = 8, merchant_idx = 4, merchant_idx_list = [1, 2]\<rparr>] ()
       = Inl (ValueError ''array is read-only'')"
proof -
  let ?tbl = "[(7, 1) \<mapsto> 1, (7, 2) \<mapsto> 9, (7, 3) \<mapsto> 5] :: int \<times> int \<rightharpoonup> real"
  let ?orders = "[\<lparr>order_id = 10::nat, account_idx = 7, merchant_idx = 3,
                    merchant_idx_list = [1, 2, 3]\<rparr>,
                  \<lparr>order_id = 11, account_idx = 8, merchant_idx = 4,
                    merchant_idx_list = [1, 2]\<rparr>]"
  let ?ri = "\<lambda>(g::unit) (i::nat). (0::nat, g)"
  let ?yes = "\<lambda>row :: nat order. True"
  let ?no = "\<lambda>row :: nat order. False"
  note t = excluded_orders_are_dropped[of ?tbl ?orders ?ri ?yes "()"]
  note model_rows = t[THEN conjunct1, THEN spec, THEN mp]
  note model_runs = t[THEN conjunct2, THEN conjunct2, THEN conjunct1, THEN mp]
  note random_rows = t[THEN conjunct2, THEN conjunct2, THEN conjunct2, THEN conjunct1,
      THEN spec, THEN spec, THEN mp]
  note random_runs = t[THEN conjunct2, THEN conjunct2, THEN conjunct2, THEN conjunct2,
      THEN conjunct2, THEN mp]
  have cov: "\<forall>row\<in>set ?orders. merchant_idx row \<in> set (merchant_idx_list row) \<longrightarrow>
               (\<forall>m\<in>set (merchant_idx_list row). ?tbl (account_idx row, m) \<noteq> None)"
    by auto
  from model_runs[OF cov] obtain out
    where out: "GenerateRelevanceListsForIfoodModel_run ?tbl ?orders = Inr out" ..
  from model_rows[OF out] have o: "map fst out = [10]" "length out = 1" by simp_all
  have wr: "\<forall>row\<in>set ?orders. merchant_idx row \<in> set (merchant_idx_list row) \<longrightarrow> ?yes row"
    by simp
  from random_runs[OF wr] obtain out' g'
    where out': "GenerateRandomRelevanceLists_run ?ri ?yes ?orders () = Inr (out', g')"
    by (elim exE)
  from random_rows[OF out'] have o': "map fst out' = [10]" "length out' = 1" by simp_all
  have ro: "GenerateRandomRelevanceLists_run ?ri ?no ?orders ()
      = Inl (ValueError ''array is read-only'')"
    by (simp add: GenerateRandomRelevanceLists_run_def filter_orders_def
        generate_random_relevance_list_def shuffle_def)
  from out o have m: "\<exists>out. GenerateRelevanceListsForIfoodModel_run ?tbl ?orders = Inr out
      \<and> map fst out = [10] \<and> length out = 1"
    by simp
  from out' o' have r: "\<exists>out g'. GenerateRandomRelevanceLists_run ?ri ?yes ?orders ()
      = Inr (out, g') \<and> map fst out = [10] \<and> length out = 1"
    by simp
  show ?thesis by (intro conjI) (rule m, rule r, rule ro)
qed

section \<open>The random builder and its argument\<close>

text \<open>
  C10 (as stated).  The random builder does not overwrite its argument for every input:
  given a read-only array it raises \<open>ValueError\<close> and leaves the array as it was; and
  given a list that can be written, with draws \<open>j = i\<close> at every step, it leaves the list
  in its original order.
\<close>

theorem random_builder_counterexample:
  "outcome (generate_random_relevance_list (\<lambda>(g::unit) (i::nat). (0::nat, g)) 1
       \<lparr>elements = [1, 2, 3], writeable = False\<rparr> ())
     = Inl (ValueError ''array is read-only'')
   \<and> merchant_idx_list_after (generate_random_relevance_list (\<lambda>(g::unit) (i::nat). (0::nat, g)) 1
       \<lparr>elements = [1, 2, 3], writeable = False\<rparr> ())
     = \<lparr>elements = [1, 2, 3], writeable = False\<rparr>
   \<and> merchant_idx_list_after (generate_random_relevance_list (\<lambda>(g::unit) (i::nat). (i, g)) 1
       \<lparr>elements = [1, 2, 3], writeable = True\<rparr> ())
     = \<lparr>elements = [1, 2, 3], writeable = True\<rparr>"
  by (simp add: generate_random_relevance_list_def shuffle_def shuffle_elements_def
      numeral_2_eq_2)

text \<open>
  C10 (amended).  Given a candidate list that can be written (a Python list or a
  writeable array), the random builder overwrites it: after the call the caller's list
  holds the order that the shuffle produces from the generator's draws, which is a
  permutation of its original elements (the original order itself for some draws), and
  the returned relevance list is the 0/1 vector of that order.  Given a read-only array,
  the builder raises \<open>ValueError\<close> and leaves the array and the generator as they were.
\<close>

theorem random_builder_mutates_argument:
  assumes "\<forall>g i. fst (random_interval g i) \<le> i"
  shows "(writeable ms \<longrightarrow>
            merchant_idx_list_after (generate_random_relevance_list random_interval c ms g)
              = ms\<lparr>elements := fst (shuffle_elements random_interval g (elements ms))\<rparr>
          \<and> mset (elements (merchant_idx_list_after
                (generate_random_relevance_list random_interval c ms g)))
              = mset (elements ms)
          \<and> outcome (generate_random_relevance_list random_interval c ms g)
              = Inr (relevance_of c (elements (merchant_idx_list_after
                  (generate_random_relevance_list random_interval c ms g))))
          \<and> generator_after (generate_random_relevance_list random_interval c ms g)
              = snd (shuffle_elements random_interval g (elements ms)))
       \<and> (\<not> writeable ms \<longrightarrow>
            outcome (generate_random_relevance_list random_interval c ms g)
              = Inl (ValueError ''array is read-only'')
          \<and> merchant_idx_list_after (generate_random_relevance_list random_interval c ms g) = ms
          \<and> generator_after (generate_random_relevance_list random_interval c ms g) = g)"
proof (intro conjI impI)
  assume w: "writeable ms"
  note call = random_call_writeable[OF w, of random_interval c g]
  show "merchant_idx_list_after (generate_random_relevance_list random_interval c ms g)
      = ms\<lparr>elements := fst (shuffle_elements random_interval g (elements ms))\<rparr>"
    by (simp add: call)
  show "mset (elements (merchant_idx_list_after
        (generate_random_relevance_list random_interval c ms g))) = mset (elements ms)"
    using shuffle_elements_perm[OF assms, of g "elements ms"] by (simp add: call)
  show "outcome (generate_random_relevance_list random_interval c ms g)
      = Inr (relevance_of c (elements (merchant_idx_list_after
          (generate_random_relevance_list random_interval c ms g))))"
    by (simp add: call)
  show "generator_after (generate_random_relevance_list random_interval c ms g)
      = snd (shuffle_elements random_interval g (elements ms))"
    by (simp add: call)
next
  assume w: "\<not> writeable ms"
  note call = random_call_read_only[OF w, of random_interval c g]
  show "outcome (generate_random_relevance_list random_interval c ms g)
      = Inl (ValueError ''array is read-only'')"
    by (simp add: call)
  show "merchant_idx_list_after (generate_random_relevance_list random_interval c ms g) = ms"
    by (simp add: call)
  show "generator_after (generate_random_relevance_list random_interval c ms g) = g"
    by (simp add: call)
qed

theorem random_builder_mutates_argument_witness:
  "(\<forall>g i. fst ((\<lambda>(g::unit) (i::nat). (0::nat, g)) g i) \<le> i)
   \<and> merchant_idx_list_after
        (generate_random_relevance_list (\<lambda>(g::unit) (i::nat). (0::nat, g)) 1
           \<lparr>elements = [1, 2, 3], writeable = True\<rparr> ())
       = \<lparr>elements = [2, 3, 1], writeable = True\<rparr>
   \<and> outcome (generate_random_relevance_list (\<lambda>(g::unit) (i::nat). (0::nat, g)) 1
           \<lparr>elements = [1, 2, 3], writeable = True\<rparr> ())
       = Inr [0, 0, 1]
   \<and> [2, 3, 1] \<noteq> [1, 2, 3::int]
   \<and> outcome (generate_random_relevance_list (\<lambda>(g::unit) (i::nat). (0::nat, g)) 1
           \<lparr>elements = [1, 2, 3], writeable = False\<rparr> ())
       = Inl (ValueError ''array is read-only'')
   \<and> merchant_idx_list_after
        (generate_random_relevance_list (\<lambda>(g::unit) (i::nat). (0::nat, g)) 1
           \<lparr>elements = [1, 2, 3], writeable = False\<rparr> ())
       = \<lparr>elements = [1, 2, 3], writeable = False\<rparr>"
proof -
  let ?ri = "\<lambda>(g::unit) (i::nat). (0::nat, g)"
  let ?rw = "\<lparr>elements = [1, 2, 3], writeable = True\<rparr>"
  let ?ro = "\<lparr>elements = [1, 2, 3], writeable = False\<rparr>"
  have h: "\<forall>g i. fst (?ri g i) \<le> i" by simp
  have s: "fst (shuffle_elements ?ri () [1, 2, 3::int]) = [2, 3, 1]"
    by (simp add: shuffle_elements_def numeral_2_eq_2)
  have w: "writeable ?rw" and n: "\<not> writeable ?ro" by simp_all
  from random_builder_mutates_argument[OF h, of ?rw 1 "()"] w s
  have a: "merchant_idx_list_after (generate_random_relevance_list ?ri 1 ?rw ())
        = \<lparr>elements = [2, 3, 1], writeable = True\<rparr>"
      "outcome (generate_random_relevance_list ?ri 1 ?rw ()) = Inr [0, 0, 1]"
    by (simp_all add: relevance_of_def)
  from random_builder_mutates_argument[OF h, of ?ro 1 "()"] n
  have b: "outcome (generate_random_relevance_list ?ri 1 ?ro ())
        = Inl (ValueError ''array is read-only'')"
      "merchant_idx_list_after (generate_random_relevance_list ?ri 1 ?ro ()) = ?ro"
    by simp_all
  from h a b show ?thesis by simp
qed

section \<open>Most-popular scores\<close>

lemma series_add_keys:
  "fst ` set (series_add k v s) = insert k (fst ` set s)"
  by (induction k v s rule: series_add.induct) auto

lemma series_add_sorted:
  "sorted_wrt (<) (map fst s) \<Longrightarrow> sorted_wrt (<) (map fst (series_add k v s))"
proof (induction k v s rule: series_add.induct)
  case (1 k v)
  show ?case by simp
next
  case (2 k v k' x s)
  from "2.prems" have s: "sorted_wrt (<) (map fst s)" "\<forall>y\<in>fst ` set s. k' < y"
    by simp_all
  show ?case
  proof (cases "k = k'")
    case True
    with "2.prems" show ?thesis by simp
  next
    case False
    show ?thesis
    proof (cases "k < k'")
      case True
      with "2.prems" False show ?thesis by auto
    next
      case f: False
      with False have "k' < k" by simp
      moreover have "sorted_wrt (<) (map fst (series_add k v s))"
        using "2.IH"[OF False f s(1)] .
      ultimately show ?thesis
        using s(2) False f series_add_keys[of k v s] by auto
    qed
  qed
qed

lemma map_of_series_add:
  assumes "sorted_wrt (<) (map fst s)"
  shows "map_of (series_add k v s)
     = (map_of s)(k \<mapsto> (case map_of s k of None \<Rightarrow> 0 | Some x \<Rightarrow> x) + v)"
  using assms
proof (induction k v s rule: series_add.induct)
  case (1 k v)
  show ?case by simp
next
  case (2 k v k' x s)
  from "2.prems" have s: "sorted_wrt (<) (map fst s)" "\<forall>y\<in>fst ` set s. k' < y"
    by simp_all
  show ?case
  proof (cases "k = k'")
    case True
    then show ?thesis by auto
  next
    case False
    show ?thesis
    proof (cases "k < k'")
      case True
      with s(2) have "k \<notin> fst ` set s" by auto
      then have "map_of s k = None" by (simp add: map_of_eq_None_iff)
      with True False show ?thesis by (auto simp: fun_eq_iff)
    next
      case f: False
      from "2.IH"[OF False f s(1)] False f show ?thesis by (auto simp: fun_eq_iff)
    qed
  qed
qed

lemma filter_absent: "m \<notin> f ` set rows \<Longrightarrow> filter (\<lambda>r. f r = m) rows = []"
  by (auto simp: filter_empty_conv)

lemma foldl_series_sorted:
  fixes rows :: "'x interaction list"
  assumes "sorted_wrt (<) (map fst s)"
  shows "sorted_wrt (<) (map fst
      (foldl (\<lambda>series row. series_add (interaction_merchant_idx row) (buys row) series) s rows))"
  using assms
proof (induction rows arbitrary: s)
  case Nil
  then show ?case by simp
next
  case (Cons row rows)
  from Cons.prems have "sorted_wrt (<)
      (map fst (series_add (interaction_merchant_idx row) (buys row) s))"
    by (rule series_add_sorted)
  from Cons.IH[OF this] show ?case by simp
qed

lemma foldl_series_map_of:
  fixes rows :: "'x interaction list"
  assumes "sorted_wrt (<) (map fst s)"
  shows "map_of (foldl (\<lambda>series row. series_add (interaction_merchant_idx row) (buys row) series)
            s rows) m =
      (if m \<in> interaction_merchant_idx ` set rows
       then Some ((case map_of s m of None \<Rightarrow> 0 | Some x \<Rightarrow> x)
                  + sum_list (map buys (filter (\<lambda>row. interaction_merchant_idx row = m) rows)))
       else map_of s m)"
  using assms
proof (induction rows arbitrary: s)
  case Nil
  show ?case by simp
next
  case (Cons row rows)
  let ?s' = "series_add (interaction_merchant_idx row) (buys row) s"
  have s': "sorted_wrt (<) (map fst ?s')" using Cons.prems by (rule series_add_sorted)
  have m: "map_of ?s' = (map_of s)(interaction_merchant_idx row \<mapsto>
      (case map_of s (interaction_merchant_idx row) of None \<Rightarrow> 0 | Some x \<Rightarrow> x) + buys row)"
    using Cons.prems by (rule map_of_series_add)
  show ?case
    using Cons.IH[OF s'] m
    by (auto simp: add.assoc filter_absent split: option.splits)
qed

lemma foldl_update_map_of:
  assumes "distinct (map fst s)"
  shows "foldl (\<lambda>d (k, v). d(k \<mapsto> v)) d0 s = d0 ++ map_of s"
  using assms
proof (induction s arbitrary: d0)
  case Nil
  show ?case by simp
next
  case (Cons p s)
  obtain k v where p: "p = (k, v)" by (cases p)
  with Cons.prems have d: "distinct (map fst s)" "k \<notin> fst ` set s" by auto
  then have n: "map_of s k = None" by (simp add: map_of_eq_None_iff)
  have "foldl (\<lambda>d (k, v). d(k \<mapsto> v)) d0 (p # s)
      = foldl (\<lambda>d (k, v). d(k \<mapsto> v)) (d0(k \<mapsto> v)) s"
    using p by simp
  also have "\<dots> = d0(k \<mapsto> v) ++ map_of s"
    by (rule Cons.IH[OF d(1)])
  also have "\<dots> = d0 ++ map_of (p # s)"
  proof
    fix a
    show "(d0(k \<mapsto> v) ++ map_of s) a = (d0 ++ map_of (p # s)) a"
      using n p by (cases "map_of s a") (auto simp: map_add_def)
  qed
  finally show ?case .
qed

lemma scores_dict_eq:
  fixes rows :: "'x interaction list"
  shows "scores_dict rows m =
      (if m \<in> interaction_merchant_idx ` set rows
       then Some (sum_list (map buys (filter (\<lambda>row. interaction_merchant_idx row = m) rows)))
       else None)"
proof -
  let ?r = "groupby_merchant_idx_buys_sum rows"
  have s: "sorted_wrt (<) (map fst ?r)"
    unfolding groupby_merchant_idx_buys_sum_def by (rule foldl_series_sorted) simp
  then have "distinct (map fst ?r)" by (simp add: strict_sorted_iff)
  then have "scores_dict rows = map_of ?r"
    unfolding scores_dict_def by (simp add: foldl_update_map_of)
  moreover have "map_of ?r m =
      (if m \<in> interaction_merchant_idx ` set rows
       then Some (sum_list (map buys (filter (\<lambda>row. interaction_merchant_idx row = m) rows)))
       else None)"
    unfolding groupby_merchant_idx_buys_sum_def
    using foldl_series_map_of[where s = "[]" and m = m and rows = rows] by simp
  ultimately show ?thesis by simp
qed
lemma sint_sum_list:
  "sint (sum_list ws :: int64) = signed_take_bit 63 (sum_list (map sint ws))"
proof (induction ws)
  case Nil
  show ?case by simp
next
  case (Cons w ws)
  have "sint (w + sum_list ws) = signed_take_bit 63 (sint w + sint (sum_list ws))"
    by (simp add: sint_word_ariths)
  also have "\<dots> = signed_take_bit 63 (sint w + signed_take_bit 63 (sum_list (map sint ws)))"
    by (simp only: Cons.IH)
  also have "\<dots> = signed_take_bit 63 (signed_take_bit 63 (sint w)
      + signed_take_bit 63 (signed_take_bit 63 (sum_list (map sint ws))))"
    by (rule signed_take_bit_add[symmetric])
  also have "\<dots> = signed_take_bit 63 (signed_take_bit 63 (sint w)
      + signed_take_bit 63 (sum_list (map sint ws)))"
    by simp
  also have "\<dots> = signed_take_bit 63 (sint w + sum_list (map sint ws))"
    by (rule signed_take_bit_add)
  finally show ?case by simp
qed

lemma int64_wrap: "signed_take_bit 63 (k::int) = (k + 2 ^ 63) mod 2 ^ 64 - 2 ^ 63"
  by (simp add: signed_take_bit_eq_take_bit_shift take_bit_eq_mod)

lemma int64_fits: "- (2 ^ 63) \<le> (k::int) \<Longrightarrow> k < 2 ^ 63 \<Longrightarrow> signed_take_bit 63 k = k"
  by (simp add: signed_take_bit_int_eq_self)

lemma group_sum_by_columns:
  "sum_list (map buys (filter (\<lambda>row. interaction_merchant_idx row = m) rows))
     = sum_list (map snd (filter (\<lambda>p. fst p = m)
         (map (\<lambda>row. (interaction_merchant_idx row, buys row)) rows)))"
  by (induction rows) auto

lemma group_sum_by_mset:
  fixes rows :: "'x interaction list"
  shows "sum_list (map buys (filter (\<lambda>row. interaction_merchant_idx row = m) rows))
     = sum_mset (image_mset buys
         (filter_mset (\<lambda>row. interaction_merchant_idx row = m) (mset rows)))"
proof -
  have "sum_list (map buys (filter (\<lambda>row. interaction_merchant_idx row = m) rows))
      = sum_mset (mset (map buys (filter (\<lambda>row. interaction_merchant_idx row = m) rows)))"
    by (simp only: sum_mset_sum_list)
  then show ?thesis by simp
qed

text \<open>
  C5 (as stated).  The score is not always the exact sum of the counts: for two rows of
  merchant 1 with \<open>buys = 2^62\<close> each, the exact sum is \<open>2^63\<close>, and the score, summed in
  \<open>int64\<close>, is \<open>- 2^63\<close>.
\<close>

theorem most_popular_exact_sum_counterexample:
  "map_option sint (scores_dict
       [\<lparr>interaction_merchant_idx = 1, buys = 4611686018427387904, other_columns = ()\<rparr>,
        \<lparr>interaction_merchant_idx = 1, buys = 4611686018427387904, other_columns = ()\<rparr>] 1)
     = Some (- 9223372036854775808)
   \<and> sint (4611686018427387904 :: int64) + sint (4611686018427387904 :: int64)
     = 9223372036854775808"
  by code_simp

text \<open>
  C5 (amended).  For a \<open>buys\<close> column of \<open>int64\<close> counts, the score of a merchant in
  most-popular scoring is the sum of the \<open>buys\<close> of all rows of the interactions table
  with that merchant, computed in \<open>int64\<close>: the exact sum wrapped into the range from
  \<open>- 2^63\<close> to \<open>2^63 - 1\<close>, hence the exact sum whenever that lies in the range (merchants
  without a row have no score).  It depends on the \<open>merchant_idx\<close> and \<open>buys\<close> columns only,
  not on the account of a row, and it is a function of the table: the same rows, in any
  order, give the same scores.
\<close>

theorem most_popular_scores:
  fixes interactions_df :: "'x interaction list"
  shows "(m \<in> interaction_merchant_idx ` set interactions_df \<longrightarrow>
            (\<exists>score. scores_dict interactions_df m = Some score
               \<and> sint score
                   = ((\<Sum>row\<leftarrow>filter (\<lambda>row. interaction_merchant_idx row = m) interactions_df.
                         sint (buys row)) + 2 ^ 63) mod 2 ^ 64 - 2 ^ 63
               \<and> (- (2 ^ 63)
                     \<le> (\<Sum>row\<leftarrow>filter (\<lambda>row. interaction_merchant_idx row = m) interactions_df.
                          sint (buys row))
                   \<and> (\<Sum>row\<leftarrow>filter (\<lambda>row. interaction_merchant_idx row = m) interactions_df.
                          sint (buys row)) < 2 ^ 63
                   \<longrightarrow> sint score
                     = (\<Sum>row\<leftarrow>filter (\<lambda>row. interaction_merchant_idx row = m) interactions_df.
                          sint (buys row)))))
       \<and> (m \<notin> interaction_merchant_idx ` set interactions_df \<longrightarrow>
            scores_dict interactions_df m = None)
       \<and> (\<forall>other :: 'y interaction list.
            map (\<lambda>row. (interaction_merchant_idx row, buys row)) other
              = map (\<lambda>row. (interaction_merchant_idx row, buys row)) interactions_df
            \<longrightarrow> scores_dict other = scores_dict interactions_df)
       \<and> (\<forall>reordered :: 'x interaction list.
            mset reordered = mset interactions_df
            \<longrightarrow> scores_dict reordered = scores_dict interactions_df)"
proof (intro conjI allI impI)
  let ?group = "filter (\<lambda>row. interaction_merchant_idx row = m) interactions_df"
  let ?exact = "\<Sum>row\<leftarrow>?group. sint (buys row)"
  assume "m \<in> interaction_merchant_idx ` set interactions_df"
  then have s: "scores_dict interactions_df m = Some (sum_list (map buys ?group))"
    by (simp add: scores_dict_eq)
  have "sint (sum_list (map buys ?group)) = signed_take_bit 63 (sum_list (map sint (map buys ?group)))"
    by (rule sint_sum_list)
  then have w: "sint (sum_list (map buys ?group)) = signed_take_bit 63 ?exact"
    by (simp add: comp_def)
  then have w1: "sint (sum_list (map buys ?group)) = (?exact + 2 ^ 63) mod 2 ^ 64 - 2 ^ 63"
    by (simp only: int64_wrap)
  have w2: "- (2 ^ 63) \<le> ?exact \<and> ?exact < 2 ^ 63
      \<longrightarrow> sint (sum_list (map buys ?group)) = ?exact"
    using w int64_fits[of ?exact] by simp
  from s w1 w2 show "\<exists>score. scores_dict interactions_df m = Some score
      \<and> sint score = (?exact + 2 ^ 63) mod 2 ^ 64 - 2 ^ 63
      \<and> (- (2 ^ 63) \<le> ?exact \<and> ?exact < 2 ^ 63 \<longrightarrow> sint score = ?exact)"
    by blast
next
  assume "m \<notin> interaction_merchant_idx ` set interactions_df"
  then show "scores_dict interactions_df m = None"
    by (simp add: scores_dict_eq)
next
  fix other :: "'y interaction list"
  assume eq: "map (\<lambda>row. (interaction_merchant_idx row, buys row)) other
      = map (\<lambda>row. (interaction_merchant_idx row, buys row)) interactions_df"
  then have "map fst (map (\<lambda>row. (interaction_merchant_idx row, buys row)) other)
      = map fst (map (\<lambda>row. (interaction_merchant_idx row, buys row)) interactions_df)"
    by simp
  then have "map interaction_merchant_idx other = map interaction_merchant_idx interactions_df"
    by (simp add: comp_def)
  then have "set (map interaction_merchant_idx other)
      = set (map interaction_merchant_idx interactions_df)" by simp
  then have keys: "interaction_merchant_idx ` set other
      = interaction_merchant_idx ` set interactions_df" by simp
  show "scores_dict other = scores_dict interactions_df"
  proof
    fix k
    show "scores_dict other k = scores_dict interactions_df k"
      by (simp only: scores_dict_eq keys group_sum_by_columns eq)
  qed
next
  fix reordered :: "'x interaction list"
  assume eq: "mset reordered = mset interactions_df"
  then have "set reordered = set interactions_df" by (metis set_mset_mset)
  then have keys: "interaction_merchant_idx ` set reordered
      = interaction_merchant_idx ` set interactions_df" by simp
  show "scores_dict reordered = scores_dict interactions_df"
  proof
    fix k
    show "scores_dict reordered k = scores_dict interactions_df k"
      by (simp only: scores_dict_eq keys group_sum_by_mset eq)
  qed
qed

theorem most_popular_scores_witness:
  "map_option sint (scores_dict
     [\<lparr>interaction_merchant_idx = 3, buys = 2, other_columns = 7::int\<rparr>,
      \<lparr>interaction_merchant_idx = 1, buys = 5, other_columns = 8\<rparr>,
      \<lparr>interaction_merchant_idx = 3, buys = 4, other_columns = 9\<rparr>] 3) = Some 6
   \<and> scores_dict
       [\<lparr>interaction_merchant_idx = 3, buys = 2, other_columns = ''a''\<rparr>,
        \<lparr>interaction_merchant_idx = 1, buys = 5, other_columns = ''a''\<rparr>,
        \<lparr>interaction_merchant_idx = 3, buys = 4, other_columns = ''a''\<rparr>]
     = scores_dict
       [\<lparr>interaction_merchant_idx = 3, buys = 2, other_columns = 7::int\<rparr>,
        \<lparr>interaction_merchant_idx = 1, buys = 5, other_columns = 8\<rparr>,
        \<lparr>interaction_merchant_idx = 3, buys = 4, other_columns = 9\<rparr>]
   \<and> scores_dict
       [\<lparr>interaction_merchant_idx = 3, buys = 4, other_columns = 9::int\<rparr>,
        \<lparr>interaction_merchant_idx = 3, buys = 2, other_columns = 7\<rparr>,
        \<lparr>interaction_merchant_idx = 1, buys = 5, other_columns = 8\<rparr>]
     = scores_dict
       [\<lparr>interaction_merchant_idx = 3, buys = 2, other_columns = 7::int\<rparr>,
        \<lparr>interaction_merchant_idx = 1, buys = 5, other_columns = 8\<rparr>,
        \<lparr>interaction_merchant_idx = 3, buys = 4, other_columns = 9\<rparr>]"
proof -
  let ?df = "[\<lparr>interaction_merchant_idx = 3, buys = 2, other_columns = 7::int\<rparr>,
      \<lparr>interaction_merchant_idx = 1, buys = 5, other_columns = 8\<rparr>,
      \<lparr>interaction_merchant_idx = 3, buys = 4, other_columns = 9\<rparr>]"
  let ?other = "[\<lparr>interaction_merchant_idx = 3, buys = 2, other_columns = ''a''\<rparr>,
        \<lparr>interaction_merchant_idx = 1, buys = 5, other_columns = ''a''\<rparr>,
        \<lparr>interaction_merchant_idx = 3, buys = 4, other_columns = ''a''\<rparr>]"
  let ?re = "[\<lparr>interaction_merchant_idx = 3, buys = 4, other_columns = 9::int\<rparr>,
        \<lparr>interaction_merchant_idx = 3, buys = 2, other_columns = 7\<rparr>,
        \<lparr>interaction_merchant_idx = 1, buys = 5, other_columns = 8\<rparr>]"
  let ?exact = "\<Sum>row\<leftarrow>filter (\<lambda>row. interaction_merchant_idx row = 3) ?df. sint (buys row)"
  note t = most_popular_scores[of 3 ?df]
  have k: "3 \<in> interaction_merchant_idx ` set ?df" by simp
  have e: "?exact = 6" by simp
  have r: "- (2 ^ 63) \<le> ?exact \<and> ?exact < 2 ^ 63" unfolding e by simp
  have h1: "map (\<lambda>row. (interaction_merchant_idx row, buys row)) ?other
      = map (\<lambda>row. (interaction_merchant_idx row, buys row)) ?df" by simp
  have h2: "mset ?re = mset ?df" by simp
  from t k obtain score where sc: "scores_dict ?df 3 = Some score"
      "- (2 ^ 63) \<le> ?exact \<and> ?exact < 2 ^ 63 \<longrightarrow> sint score = ?exact"
    by blast
  from sc(2) r have "sint score = ?exact" by blast
  with e have "sint score = 6" by simp
  with sc(1) have "map_option sint (scores_dict ?df 3) = Some 6" by simp
  moreover from t h1 have "scores_dict ?other = scores_dict ?df" by blast
  moreover from t h2 have "scores_dict ?re = scores_dict ?df" by blast
  ultimately show ?thesis by (intro conjI)
qed

section \<open>Validation of the item index\<close>

lemma list_all_zip_eq:
  assumes "length xs = length ys"
  shows "list_all (\<lambda>(a, b). a = b) (zip xs ys) \<longleftrightarrow> xs = ys"
proof -
  have "list_all (\<lambda>(a, b). a = b) (zip xs ys) \<longleftrightarrow> list_all2 (=) xs ys"
    using assms by (simp add: list_all2_iff list_all_iff)
  then show ?thesis by (simp add: list_all2_eq)
qed

lemma index_is_arange_iff:
  "index_is_arange index \<longleftrightarrow> index = map int [0..<length index]"
  unfolding index_is_arange_def
  by (subst list_all_zip_eq) auto

lemma embeddings_loop_Inl:
  assumes "embeddings_loop column names acc = Inl e"
  shows "\<exists>name\<in>set names. column name = Inl e"
  using assms
proof (induction names arbitrary: acc)
  case Nil
  then show ?case by simp
next
  case (Cons name names)
  show ?case
  proof (cases "column name")
    case (Inl e')
    with Cons.prems show ?thesis by simp
  next
    case (Inr emb)
    with Cons.prems have "embeddings_loop column names (acc(name \<mapsto> emb)) = Inl e" by simp
    from Cons.IH[OF this] show ?thesis by auto
  qed
qed

text \<open>
  C8.  Metadata preprocessing raises \<open>ValueError\<close> exactly when the sorted item column is
  not the range \<open>0, \<dots>, N - 1\<close> for the \<open>N\<close> rows of the table; the check depends on the
  item column only and comes before the loop over the metadata columns, so in that case
  the error is the result whatever the metadata columns are and no embedding is returned.
\<close>

theorem item_index_validation:
  "(preprocess_metadata_data_frame df metadata_columns
      = Inl (ValueError ''The item index is not contiguous'')
    \<longleftrightarrow> sort (item_column df) \<noteq> map int [0..<length (item_column df)])
   \<and> ((\<exists>msg. preprocess_metadata_data_frame df metadata_columns = Inl (ValueError msg))
    \<longleftrightarrow> sort (item_column df) \<noteq> map int [0..<length (item_column df)])
   \<and> ((\<exists>embeddings. preprocess_metadata_data_frame df metadata_columns = Inr embeddings)
    \<longleftrightarrow> sort (item_column df) = map int [0..<length (item_column df)]
        \<and> set metadata_columns \<subseteq> dom (columns df))"
proof -
  let ?column = "\<lambda>name. case columns df name of
                      None \<Rightarrow> Inl (KeyError (ColumnKey name))
                    | Some vals \<Rightarrow> Inr (map snd (sort_key fst (zip (item_column df) vals)))"
  let ?dense = "sort (item_column df) = map int [0..<length (item_column df)]"
  have ar: "index_is_arange (sort (item_column df)) \<longleftrightarrow> ?dense"
    by (simp add: index_is_arange_iff)
  have bad: "preprocess_metadata_data_frame df metadata_columns
      = Inl (ValueError ''The item index is not contiguous'')" if "\<not> ?dense"
    using that ar by (simp add: preprocess_metadata_data_frame_def Let_def)
  have good: "preprocess_metadata_data_frame df metadata_columns
      = embeddings_loop ?column metadata_columns Map.empty" if "?dense"
    using that ar by (simp add: preprocess_metadata_data_frame_def Let_def)
  have no_value_error: "preprocess_metadata_data_frame df metadata_columns \<noteq> Inl (ValueError msg)"
    if d: "?dense" for msg
  proof
    assume "preprocess_metadata_data_frame df metadata_columns = Inl (ValueError msg)"
    with good[OF d] have "embeddings_loop ?column metadata_columns Map.empty
        = Inl (ValueError msg)" by simp
    then obtain name where "?column name = Inl (ValueError msg)"
      using embeddings_loop_Inl by blast
    then show False by (simp split: option.splits)
  qed
  have covered: "(\<exists>embeddings. embeddings_loop ?column names acc = Inr embeddings)
      \<longleftrightarrow> set names \<subseteq> dom (columns df)" for names acc
  proof (induction names arbitrary: acc)
    case Nil
    show ?case by simp
  next
    case (Cons name names)
    show ?case
    proof (cases "columns df name")
      case None
      then show ?thesis by auto
    next
      case (Some vals)
      then show ?thesis using Cons.IH by auto
    qed
  qed
  show ?thesis
  proof (intro conjI)
    show "preprocess_metadata_data_frame df metadata_columns
        = Inl (ValueError ''The item index is not contiguous'') \<longleftrightarrow> \<not> ?dense"
      using bad no_value_error by blast
    show "(\<exists>msg. preprocess_metadata_data_frame df metadata_columns = Inl (ValueError msg))
        \<longleftrightarrow> \<not> ?dense"
      using bad no_value_error by blast
    show "(\<exists>embeddings. preprocess_metadata_data_frame df metadata_columns = Inr embeddings)
        \<longleftrightarrow> ?dense \<and> set metadata_columns \<subseteq> dom (columns df)"
    proof (cases ?dense)
      case True
      with good covered[of metadata_columns Map.empty] show ?thesis by simp
    next
      case False
      with bad show ?thesis by simp
    qed
  qed
qed
theorem item_index_validation_witness:
  "preprocess_metadata_data_frame
      \<lparr>item_column = [2, 0, 3], columns = [''price'' \<mapsto> [30, 10, 20::int]]\<rparr> [''missing'']
     = Inl (ValueError ''The item index is not contiguous'')
   \<and> (\<exists>embeddings. preprocess_metadata_data_frame
      \<lparr>item_column = [2, 0, 1], columns = [''price'' \<mapsto> [30, 10, 20::int]]\<rparr> [''price'']
     = Inr embeddings)"
proof -
  let ?gap = "\<lparr>item_column = [2, 0, 3], columns = [''price'' \<mapsto> [30, 10, 20::int]]\<rparr>"
  let ?dense = "\<lparr>item_column = [2, 0, 1], columns = [''price'' \<mapsto> [30, 10, 20::int]]\<rparr>"
  have u: "[0..<3] = [0, 1, 2]" by (simp add: upt_rec)
  have g: "sort (item_column ?gap) \<noteq> map int [0..<length (item_column ?gap)]"
    by (simp add: u)
  have d: "sort (item_column ?dense) = map int [0..<length (item_column ?dense)]
      \<and> set [''price''] \<subseteq> dom (columns ?dense)"
    by (simp add: u)
  from item_index_validation[of ?gap "[''missing'']"] g
  have "preprocess_metadata_data_frame ?gap [''missing'']
      = Inl (ValueError ''The item index is not contiguous'')" by blast
  moreover from item_index_validation[of ?dense "[''price'']"] d
  have "\<exists>embeddings. preprocess_metadata_data_frame ?dense [''price''] = Inr embeddings"
    by blast
  ultimately show ?thesis by (intro conjI)
qed

section \<open>Round trip of the relevance-list encoding\<close>

lemma csv_quoted_escape:
  "csv_quoted (concat (map (\<lambda>c. if c = CHR 0x22 then [c, c] else [c]) field) @ [CHR 0x22])
     = field"
proof (induction field)
  case Nil
  show ?case by simp
next
  case (Cons c field)
  let ?rest = "concat (map (\<lambda>c. if c = CHR 0x22 then [c, c] else [c]) field) @ [CHR 0x22]"
  obtain d ds where r: "?rest = d # ds" by (cases ?rest) auto
  show ?case
  proof (cases "c = CHR 0x22")
    case True
    then show ?thesis using Cons.IH by simp
  next
    case False
    then have "csv_quoted (c # ?rest) = c # csv_quoted ?rest"
      by (simp add: r)
    with False Cons.IH show ?thesis by simp
  qed
qed

text \<open>Reading a written CSV field gives the field back, whatever the text.\<close>

lemma csv_field_round_trip: "csv_read_field (csv_write_field field) = field"
proof (cases "list_ex csv_special field")
  case True
  then show ?thesis
    by (simp add: csv_write_field_def csv_read_field_def csv_quoted_escape)
next
  case False
  then have "field = [] \<or> hd field \<noteq> CHR 0x22"
    by (cases field) (auto simp: csv_special_def)
  with False show ?thesis
    by (cases field) (auto simp: csv_write_field_def csv_read_field_def)
qed

lemma int_repr_bit: "int_repr 0 = ''0''" "int_repr 1 = ''1''"
  by (simp_all add: int_repr_def nat_repr.simps)

lemma tokenize_bit_close:
  assumes "x = 0 \<or> x = 1"
  shows "tokenize [] (int_repr x @ '']'') = Some [NUM (int_repr x), RBRACK]"
  using assms
  by (auto simp: int_repr_bit is_digit_def is_blank_def punctuation_def flush_def)

lemma tokenize_bit_comma:
  assumes "x = 0 \<or> x = 1"
  shows "tokenize [] (int_repr x @ '', '' @ rest)
     = map_option (\<lambda>ts. NUM (int_repr x) # COMMA # ts) (tokenize [] rest)"
proof -
  have "map_option (flush []) r = r" for r :: "token list option"
    by (cases r) (simp_all add: flush_def)
  then show ?thesis
    using assms
    by (auto simp: int_repr_bit is_digit_def is_blank_def punctuation_def flush_def
        option.map_comp comp_def)
qed

lemma tokenize_bits:
  assumes "set xs \<subseteq> {0, 1}"
  shows "tokenize [] (join '', '' (map int_repr xs) @ '']'') = Some (bit_tokens xs)"
  using assms
proof (induction xs rule: bit_tokens.induct)
  case 1
  show ?case by (simp add: is_digit_def is_blank_def punctuation_def flush_def)
next
  case (2 x)
  then have "x = 0 \<or> x = 1" by simp
  then show ?case using tokenize_bit_close by simp
next
  case (3 x y ys)
  then have x: "x = 0 \<or> x = 1" and rest: "set (y # ys) \<subseteq> {0, 1}" by simp_all
  have "tokenize [] (join '', '' (map int_repr (x # y # ys)) @ '']'')
      = tokenize [] (int_repr x @ '', '' @ (join '', '' (map int_repr (y # ys)) @ '']''))"
    by simp
  also have "\<dots> = map_option (\<lambda>ts. NUM (int_repr x) # COMMA # ts)
      (tokenize [] (join '', '' (map int_repr (y # ys)) @ '']''))"
    using x by (rule tokenize_bit_comma)
  also have "\<dots> = Some (bit_tokens (x # y # ys))"
    using "3.IH"[OF rest] by simp
  finally show ?case .
qed

lemma literal_value_bit:
  assumes "x = 0 \<or> x = 1"
  shows "literal_value (int_repr x) = Some x"
  using assms by (auto simp: int_repr_bit literal_value_def digit_value_def)

lemma parse_elements_close: "parse_elements [RBRACK] = Some []"
  by (simp add: parse_elements.simps)

lemma parse_elements_last:
  "parse_elements [NUM ds, RBRACK] = map_option (\<lambda>v. [v]) (literal_value ds)"
  by (subst parse_elements.simps) (simp split: option.splits)

lemma parse_elements_comma:
  "parse_elements (NUM ds # COMMA # ts)
     = (case literal_value ds of
          None \<Rightarrow> None
        | Some v \<Rightarrow> map_option (\<lambda>vs. v # vs) (parse_elements ts))"
  by (subst parse_elements.simps) (simp split: option.splits)

lemma parse_bit_tokens:
  assumes "set xs \<subseteq> {0, 1}"
  shows "parse_elements (bit_tokens xs) = Some xs"
  using assms
proof (induction xs rule: bit_tokens.induct)
  case 1
  show ?case by (simp add: parse_elements_close)
next
  case (2 x)
  then have "x = 0 \<or> x = 1" by simp
  then show ?case by (simp add: parse_elements_last literal_value_bit)
next
  case (3 x y ys)
  then have x: "x = 0 \<or> x = 1" and rest: "set (y # ys) \<subseteq> {0, 1}" by simp_all
  from "3.IH"[OF rest] x show ?case
    by (simp add: parse_elements_comma literal_value_bit)
qed

lemma literal_eval_list_str:
  assumes "set xs \<subseteq> {0, 1}"
  shows "literal_eval (list_str xs) = Inr xs"
proof -
  have "tokenize [] (list_str xs)
      = map_option (\<lambda>ts. LBRACK # ts) (tokenize [] (join '', '' (map int_repr xs) @ '']''))"
    by (simp add: list_str_def is_digit_def is_blank_def punctuation_def flush_def)
  then have "tokenize [] (list_str xs) = Some (LBRACK # bit_tokens xs)"
    using tokenize_bits[OF assms] by simp
  then show ?thesis
    using parse_bit_tokens[OF assms] by (simp add: literal_eval_def)
qed

text \<open>
  C7.  A relevance vector (a list of 0s and 1s) that is written to a cell of the
  relevance-list file and read back through the CSV reader and \<open>ast.literal_eval\<close> is
  the same list.
\<close>

theorem relevance_list_round_trip:
  assumes "set rel \<subseteq> {0, 1}"
  shows "literal_eval (csv_read_field (csv_write_field (list_str rel))) = Inr rel"
  using assms by (simp add: csv_field_round_trip literal_eval_list_str)

theorem relevance_list_round_trip_witness:
  "set [0, 1, 0] \<subseteq> {0, 1 :: int}
   \<and> csv_write_field (list_str [0, 1, 0])
       = [CHR 0x22] @ ''[0, 1, 0]'' @ [CHR 0x22]
   \<and> literal_eval (csv_read_field (csv_write_field (list_str [0, 1, 0]))) = Inr [0, 1, 0]"
proof -
  have h: "set [0, 1, 0] \<subseteq> {0, 1 :: int}" by simp
  have w: "csv_write_field (list_str [0, 1, 0]) = [CHR 0x22] @ ''[0, 1, 0]'' @ [CHR 0x22]"
    by (simp add: csv_write_field_def list_str_def int_repr_bit csv_special_def)
  from relevance_list_round_trip[OF h] h w show ?thesis by simp
qed

section \<open>Average precision\<close>

lemma set_relevant_positions:
  "set (relevant_positions rel) = {i. 1 \<le> i \<and> i \<le> length rel \<and> rel ! (i - 1) = 1}"
  by (auto simp: relevant_positions_def)

lemma distinct_relevant_positions: "distinct (relevant_positions rel)"
  by (simp add: relevant_positions_def)

lemma relevant_positions_empty_iff: "relevant_positions rel = [] \<longleftrightarrow> 1 \<notin> set rel"
proof
  assume e: "relevant_positions rel = []"
  show "1 \<notin> set rel"
  proof
    assume "1 \<in> set rel"
    then obtain k where k: "k < length rel" "rel ! k = 1" by (auto simp: in_set_conv_nth)
    then have "Suc k \<in> set (relevant_positions rel)"
      by (simp add: set_relevant_positions)
    with e show False by simp
  qed
next
  assume n: "1 \<notin> set rel"
  have "set (relevant_positions rel) = {}"
  proof (rule ccontr)
    assume "set (relevant_positions rel) \<noteq> {}"
    then obtain i where "1 \<le> i" "i \<le> length rel" "rel ! (i - 1) = 1"
      by (auto simp: set_relevant_positions)
    then have "i - 1 < length rel" "rel ! (i - 1) = 1" by simp_all
    then have "1 \<in> set rel" by (metis nth_mem)
    with n show False by simp
  qed
  then show "relevant_positions rel = []" by simp
qed

lemma count_ones_prefix:
  assumes "i \<le> length rel"
  shows "length (filter (\<lambda>r. r = 1) (take i rel))
     = card {j. 1 \<le> j \<and> j \<le> i \<and> rel ! (j - 1) = (1::int)}"
proof -
  have "length (filter (\<lambda>r. r = 1) (take i rel))
      = card {j. j < length (take i rel) \<and> take i rel ! j = 1}"
    by (rule length_filter_conv_card)
  also have "{j. j < length (take i rel) \<and> take i rel ! j = 1} = {j. j < i \<and> rel ! j = 1}"
    using assms by auto
  also have "card {j. j < i \<and> rel ! j = 1} = card (Suc ` {j. j < i \<and> rel ! j = 1})"
    by (simp add: card_image)
  also have "Suc ` {j. j < i \<and> rel ! j = 1} = {j. 1 \<le> j \<and> j \<le> i \<and> rel ! (j - 1) = 1}"
  proof (rule set_eqI)
    fix j
    show "j \<in> Suc ` {j. j < i \<and> rel ! j = 1}
        \<longleftrightarrow> j \<in> {j. 1 \<le> j \<and> j \<le> i \<and> rel ! (j - 1) = 1}"
      by (cases j) auto
  qed
  finally show ?thesis .
qed

text \<open>
  C9.  \<open>average_precision\<close> of a relevance vector is the mean, over the positions \<open>i\<close>
  (counted from 1) that hold a 1, of the number of 1s among the first \<open>i\<close> entries divided
  by \<open>i\<close>; it is 0 when the vector holds no 1.  In particular it is 1 for \<open>[1]\<close>, 1/2 for
  \<open>[0, 1]\<close> and 0 for \<open>[0, 0, 0]\<close>.
\<close>

theorem average_precision_is_mean_precision:
  "average_precision rel =
     (if 1 \<in> set rel
      then (\<Sum>i | 1 \<le> i \<and> i \<le> length rel \<and> rel ! (i - 1) = 1.
              real (card {j. 1 \<le> j \<and> j \<le> i \<and> rel ! (j - 1) = 1}) / real i)
           / real (card {i. 1 \<le> i \<and> i \<le> length rel \<and> rel ! (i - 1) = 1})
      else 0)
   \<and> average_precision [1] = 1
   \<and> average_precision [0, 1] = 1 / 2
   \<and> average_precision [0, 0, 0] = 0"
proof (intro conjI)
  let ?R = "{i. 1 \<le> i \<and> i \<le> length rel \<and> rel ! (i - 1) = 1}"
  have sum: "sum_list (map (precision_at rel) (relevant_positions rel))
      = (\<Sum>i\<in>?R. precision_at rel i)"
    using distinct_relevant_positions[of rel]
    by (simp add: sum_list_distinct_conv_sum_set set_relevant_positions)
  have "(\<Sum>i\<in>?R. precision_at rel i)
      = (\<Sum>i\<in>?R. real (card {j. 1 \<le> j \<and> j \<le> i \<and> rel ! (j - 1) = 1}) / real i)"
    by (rule sum.cong) (simp_all add: precision_at_def count_ones_prefix)
  with sum have s: "sum_list (map (precision_at rel) (relevant_positions rel))
      = (\<Sum>i\<in>?R. real (card {j. 1 \<le> j \<and> j \<le> i \<and> rel ! (j - 1) = 1}) / real i)"
    by simp
  have len: "length (relevant_positions rel) = card ?R"
    using distinct_card[OF distinct_relevant_positions[of rel]]
    by (simp add: set_relevant_positions)
  show "average_precision rel =
     (if 1 \<in> set rel
      then (\<Sum>i | 1 \<le> i \<and> i \<le> length rel \<and> rel ! (i - 1) = 1.
              real (card {j. 1 \<le> j \<and> j \<le> i \<and> rel ! (j - 1) = 1}) / real i)
           / real (card {i. 1 \<le> i \<and> i \<le> length rel \<and> rel ! (i - 1) = 1})
      else 0)"
  proof (cases "1 \<in> set rel")
    case True
    then have "relevant_positions rel \<noteq> []" by (simp add: relevant_positions_empty_iff)
    with True s len show ?thesis by (simp add: average_precision_def Let_def)
  next
    case False
    then have "relevant_positions rel = []" by (simp add: relevant_positions_empty_iff)
    with False show ?thesis by (simp add: average_precision_def)
  qed
next
  show "average_precision [1] = 1"
    by (simp add: average_precision_def relevant_positions_def precision_at_def upt_rec)
next
  show "average_precision [0, 1] = 1 / 2"
    by (simp add: average_precision_def relevant_positions_def precision_at_def upt_rec)
next
  show "average_precision [0, 0, 0] = 0"
    by (simp add: average_precision_def relevant_positions_def precision_at_def upt_rec)
qed

section \<open>Aggregation of the metrics\<close>

lemma list_map_total: "list_map (\<lambda>x. Inr (f x)) xs = Inr (map f xs)"
  by (induction xs) auto

lemma map_chunksize_pos:
  assumes "0 < len" "0 < processes"
  shows "0 < map_chunksize len processes"
proof (cases "len mod (processes * 4) = 0")
  case True
  then have "processes * 4 dvd len" by auto
  with assms have "processes * 4 \<le> len" by (simp add: dvd_imp_le)
  with assms have "0 < len div (processes * 4)" by (simp add: div_greater_zero_iff)
  with True assms show ?thesis by (simp add: map_chunksize_def Let_def)
next
  case False
  with assms show ?thesis by (simp add: map_chunksize_def Let_def)
qed

lemma get_tasks_Nil: "get_tasks c [] = []"
  by (subst get_tasks.simps) simp

lemma get_tasks_Cons:
  assumes "0 < c" "xs \<noteq> []"
  shows "get_tasks c xs = take c xs # get_tasks c (drop c xs)"
  using assms by (subst get_tasks.simps) (simp add: Let_def)

text \<open>Chunk \<open>i\<close> holds the items \<open>i * c, \<dots>, i * c + c - 1\<close> of the iterable.\<close>

lemma get_tasks_nth:
  assumes "0 < c" "i < length (get_tasks c xs)"
  shows "get_tasks c xs ! i = take c (drop (i * c) xs)"
  using assms(2)
proof (induction i arbitrary: xs)
  case 0
  then have "xs \<noteq> []" by (auto simp: get_tasks_Nil)
  then show ?case using assms(1) by (simp add: get_tasks_Cons)
next
  case (Suc i)
  then have ne: "xs \<noteq> []" by (auto simp: get_tasks_Nil)
  with Suc.prems assms(1) have "i < length (get_tasks c (drop c xs))"
    by (simp add: get_tasks_Cons)
  then have "get_tasks c (drop c xs) ! i = take c (drop (i * c) (drop c xs))"
    by (rule Suc.IH)
  with ne assms(1) show ?case by (simp add: get_tasks_Cons add.commute)
qed

lemma get_tasks_covers:
  assumes "0 < c" "k < length xs"
  shows "k div c < length (get_tasks c xs)"
  using assms(2)
proof (induction "length xs" arbitrary: xs k rule: less_induct)
  case less
  from less.prems have ne: "xs \<noteq> []" by auto
  then have g: "get_tasks c xs = take c xs # get_tasks c (drop c xs)"
    using assms(1) by (simp add: get_tasks_Cons)
  show ?case
  proof (cases "k < c")
    case True
    with g show ?thesis by simp
  next
    case False
    then have kc: "c \<le> k" by simp
    with less.prems have "k - c < length (drop c xs)" by simp
    moreover have "length (drop c xs) < length xs" using ne assms(1) by simp
    ultimately have "(k - c) div c < length (get_tasks c (drop c xs))"
      using less.hyps by blast
    moreover have "k div c = Suc ((k - c) div c)"
      using assms(1) kc by (simp add: le_div_geq)
    ultimately show ?thesis using g by simp
  qed
qed

lemma length_get_tasks_le:
  assumes "0 < c"
  shows "length (get_tasks c xs) \<le> length xs"
proof (induction "length xs" arbitrary: xs rule: less_induct)
  case less
  show ?case
  proof (cases "xs = []")
    case True
    then show ?thesis by (simp add: get_tasks_Nil)
  next
    case False
    then have g: "get_tasks c xs = take c xs # get_tasks c (drop c xs)"
      using assms by (simp add: get_tasks_Cons)
    have "length (drop c xs) < length xs" using False assms by simp
    then have "length (get_tasks c (drop c xs)) \<le> length (drop c xs)"
      using less.hyps by blast
    with g False assms show ?thesis by (cases xs) auto
  qed
qed

text \<open>Overwriting the slice of chunk \<open>i\<close> with the same slice of another list.\<close>

lemma slice_overwrite:
  assumes "length v = length t" "0 < c"
  shows "length (take (i * c) v @ take c (drop (i * c) t) @ drop ((i + 1) * c) v) = length v"
    and "k < length v \<Longrightarrow>
      (take (i * c) v @ take c (drop (i * c) t) @ drop ((i + 1) * c) v) ! k
        = (if k div c = i then t ! k else v ! k)"
proof -
  show "length (take (i * c) v @ take c (drop (i * c) t) @ drop ((i + 1) * c) v) = length v"
    using assms by (auto simp: min_def)
next
  assume k: "k < length v"
  have d: "k div c = i \<longleftrightarrow> i * c \<le> k \<and> k < i * c + c"
  proof
    assume "k div c = i"
    then show "i * c \<le> k \<and> k < i * c + c"
      using assms(2) div_times_less_eq_dividend[of k c] dividend_less_div_times[of c k]
      by (auto simp: ac_simps)
  next
    assume "i * c \<le> k \<and> k < i * c + c"
    then show "k div c = i"
      by (intro div_nat_eqI) (simp_all add: ac_simps)
  qed
  show "(take (i * c) v @ take c (drop (i * c) t) @ drop ((i + 1) * c) v) ! k
        = (if k div c = i then t ! k else v ! k)"
    using assms k unfolding d
    by (auto simp: nth_append min_def)
qed

lemma those_map_Some: "those (map (Some \<circ> f) xs) = Some (map f xs)"
  by (induction xs) auto

text \<open>
  While the chunks are reported successfully, the value holds the results of the chunks
  reported so far at their positions.
\<close>

lemma foldl_map_result_set:
  fixes func :: "'a \<Rightarrow> error + 'b" and g :: "'a \<Rightarrow> 'b"
  assumes c: "0 < c"
    and ok: "\<forall>x\<in>set xs. func x = Inr (g x)"
    and v: "length v = length xs"
    and r: "\<forall>i\<in>set reported. i < length (get_tasks c xs)"
  shows "\<exists>v'. foldl (\<lambda>r i. map_result_set c i (list_map func (get_tasks c xs ! i)) r)
               (Value v) reported = Value v'
           \<and> length v' = length xs
           \<and> (\<forall>k<length xs. v' ! k
                 = (if k div c \<in> set reported then Some (g (xs ! k)) else v ! k))"
  using v r
proof (induction reported arbitrary: v)
  case Nil
  then show ?case by simp
next
  case (Cons i reported)
  let ?t = "map (\<lambda>x. Some (g x)) xs"
  let ?v1 = "take (i * c) v @ take c (drop (i * c) ?t) @ drop ((i + 1) * c) v"
  from Cons.prems have i: "i < length (get_tasks c xs)" by simp
  then have chunk: "get_tasks c xs ! i = take c (drop (i * c) xs)"
    using c by (simp add: get_tasks_nth)
  have "\<forall>x\<in>set (take c (drop (i * c) xs)). func x = Inr (g x)"
    using ok by (meson in_set_dropD in_set_takeD)
  then have "list_map func (get_tasks c xs ! i) = Inr (map g (take c (drop (i * c) xs)))"
    unfolding chunk by (rule list_map_all_Inr)
  then have step: "map_result_set c i (list_map func (get_tasks c xs ! i)) (Value v) = Value ?v1"
    by (simp add: map_result_set_def take_map drop_map)
  have lt: "length v = length ?t" using Cons.prems by simp
  have len1: "length ?v1 = length xs"
    using slice_overwrite(1)[OF lt c, of i] Cons.prems by simp
  have nth1: "?v1 ! k = (if k div c = i then ?t ! k else v ! k)" if "k < length xs" for k
    using slice_overwrite(2)[OF lt c, of k i] that Cons.prems by simp
  from Cons.prems have "\<forall>i\<in>set reported. i < length (get_tasks c xs)" by simp
  from Cons.IH[OF len1 this] obtain v' where
    v': "foldl (\<lambda>r i. map_result_set c i (list_map func (get_tasks c xs ! i)) r)
           (Value ?v1) reported = Value v'"
        "length v' = length xs"
        "\<forall>k<length xs. v' ! k
            = (if k div c \<in> set reported then Some (g (xs ! k)) else ?v1 ! k)"
    by blast
  have "\<forall>k<length xs. v' ! k
      = (if k div c \<in> set (i # reported) then Some (g (xs ! k)) else v ! k)"
    using v'(3) nth1 by auto
  with v'(1,2) step show ?case by auto
qed

text \<open>
  When \<open>func\<close> succeeds on every item and every chunk is reported, \<open>Pool.map\<close> returns
  what \<open>map\<close> computes, whatever the number of processes and the order of the reports.
\<close>

lemma pool_map_is_map:
  fixes func :: "'a \<Rightarrow> error + 'b" and g :: "'a \<Rightarrow> 'b"
  assumes p: "0 < processes"
    and ok: "\<forall>x\<in>set xs. func x = Inr (g x)"
    and all: "{0..<length xs} \<subseteq> set schedule"
  shows "pool_map schedule processes func xs = Some (Inr (map g xs))"
proof (cases "xs = []")
  case True
  then show ?thesis
    by (simp add: pool_map_def map_chunksize_def get_tasks_Nil)
next
  case False
  let ?c = "map_chunksize (length xs) processes"
  let ?tasks = "get_tasks ?c xs"
  let ?reported = "filter (\<lambda>i. i < length ?tasks) schedule"
  have c: "0 < ?c" using False p by (simp add: map_chunksize_pos)
  have n: "length ?tasks \<le> length xs" using c by (rule length_get_tasks_le)
  have cover: "\<forall>i<length ?tasks. i \<in> set ?reported"
    using all n by auto
  then have every: "list_all (\<lambda>i. i \<in> set ?reported) [0..<length ?tasks]"
    by (simp add: list_all_iff)
  have "\<forall>i\<in>set ?reported. i < length ?tasks" by simp
  from foldl_map_result_set[OF c ok _ this, of "replicate (length xs) None"]
  obtain v' where v': "foldl (\<lambda>r i. map_result_set ?c i (list_map func (?tasks ! i)) r)
               (Value (replicate (length xs) None)) ?reported = Value v'"
      "length v' = length xs"
      "\<forall>k<length xs. v' ! k
          = (if k div ?c \<in> set ?reported then Some (g (xs ! k))
             else replicate (length xs) None ! k)"
    by auto
  have "v' = map Some (map g xs)"
  proof (rule nth_equalityI)
    show "length v' = length (map Some (map g xs))" using v'(2) by simp
  next
    fix k assume "k < length v'"
    with v'(2) have k: "k < length xs" by simp
    then have "k div ?c < length ?tasks" using c by (simp add: get_tasks_covers)
    with cover have "k div ?c \<in> set ?reported" by blast
    with v'(3) k show "v' ! k = map Some (map g xs) ! k" by simp
  qed
  with v'(1) every show ?thesis
    by (simp add: pool_map_def Let_def those_map_Some)
qed

lemma series_mean_mset_cong:
  assumes "mset xs = mset ys"
  shows "series_mean xs = series_mean ys"
proof -
  have "sum_list xs = sum_list ys"
    using assms by (metis sum_mset_sum_list)
  moreover have "length xs = length ys"
    using assms by (metis size_mset)
  moreover have "xs = [] \<longleftrightarrow> ys = []"
    using assms by (metis mset_zero_iff)
  ultimately show ?thesis by (simp add: series_mean_def)
qed

lemma run_parsed:
  assumes "1 \<le> num_processes"
    and "\<forall>call. {0..<length relevance_list_column} \<subseteq> set (scheduler call)"
    and "map literal_eval relevance_list_column = map Inr vectors"
  shows "EvaluateIfoodModel_run ap ndcg scheduler num_processes relevance_list_column =
     Some (Inr (\<lparr>column_average_precision = map ap vectors,
            column_ndcg_at_5 = map (\<lambda>r. ndcg r 5) vectors,
            column_ndcg_at_10 = map (\<lambda>r. ndcg r 10) vectors,
            column_ndcg_at_15 = map (\<lambda>r. ndcg r 15) vectors,
            column_ndcg_at_20 = map (\<lambda>r. ndcg r 20) vectors,
            column_ndcg_at_50 = map (\<lambda>r. ndcg r 50) vectors\<rparr>,
          \<lparr>metric_count = length vectors,
            metric_average_precision = series_mean (map ap vectors),
            metric_ndcg_at_5 = series_mean (map (\<lambda>r. ndcg r 5) vectors),
            metric_ndcg_at_10 = series_mean (map (\<lambda>r. ndcg r 10) vectors),
            metric_ndcg_at_15 = series_mean (map (\<lambda>r. ndcg r 15) vectors),
            metric_ndcg_at_20 = series_mean (map (\<lambda>r. ndcg r 20) vectors),
            metric_ndcg_at_50 = series_mean (map (\<lambda>r. ndcg r 50) vectors)\<rparr>))"
proof -
  have p: "0 < nat num_processes" using assms(1) by simp
  have len: "length relevance_list_column = length vectors"
    using assms(3) by (metis length_map)
  have cells: "\<forall>cell\<in>set relevance_list_column. literal_eval cell = Inr (projr (literal_eval cell))"
  proof
    fix cell assume "cell \<in> set relevance_list_column"
    then have "literal_eval cell \<in> set (map literal_eval relevance_list_column)" by simp
    then have "literal_eval cell \<in> set (map Inr vectors)" by (simp only: assms(3))
    then show "literal_eval cell = Inr (projr (literal_eval cell))" by auto
  qed
  have v: "map (\<lambda>cell. projr (literal_eval cell)) relevance_list_column = vectors"
  proof -
    have "map projr (map literal_eval relevance_list_column)
        = map projr (map (Inr :: int list \<Rightarrow> error + int list) vectors)"
      by (simp only: assms(3))
    then show ?thesis by (simp add: comp_def)
  qed
  have parse: "pool_map (scheduler 0) (nat num_processes) literal_eval relevance_list_column
      = Some (Inr vectors)"
    using pool_map_is_map[OF p cells, of "scheduler 0"] assms(2) v by simp
  have metric: "pool_map (scheduler call) (nat num_processes) (\<lambda>r. Inr (f r)) vectors
      = Some (Inr (map f vectors))" for call and f :: "int list \<Rightarrow> real"
    using pool_map_is_map[OF p, of vectors "\<lambda>r. Inr (f r)" f "scheduler call"] assms(2) len
    by simp
  show ?thesis
    using assms(1)
    by (simp add: EvaluateIfoodModel_run_def Let_def then_do_def parse metric len)
qed

text \<open>
  C6.  When every cell of the relevance-list column parses, there is at least one row and
  every chunk of every \<open>map\<close> call is reported, the summary's count is the number of
  vectors and each summary metric is the arithmetic mean of that metric's values over the
  vectors; the result is the same for every number of worker processes and every order in
  which the workers report, and the summary is the same for every order of the rows.
  (The chunks of a call are fewer than the rows, so a schedule that holds every number
  below the number of rows reports every chunk.)
\<close>

theorem summary_is_mean_of_per_vector_metrics:
  assumes "1 \<le> num_processes"
    and "\<forall>call. {0..<length relevance_list_column} \<subseteq> set (scheduler call)"
    and "map literal_eval relevance_list_column = map Inr vectors"
    and "vectors \<noteq> []"
  shows "\<exists>columns summary.
       EvaluateIfoodModel_run ap ndcg scheduler num_processes relevance_list_column
         = Some (Inr (columns, summary))
     \<and> metric_count summary = length vectors
     \<and> metric_average_precision summary
         = Some (sum_list (map ap vectors) / real (length vectors))
     \<and> metric_ndcg_at_5 summary
         = Some (sum_list (map (\<lambda>r. ndcg r 5) vectors) / real (length vectors))
     \<and> metric_ndcg_at_10 summary
         = Some (sum_list (map (\<lambda>r. ndcg r 10) vectors) / real (length vectors))
     \<and> metric_ndcg_at_15 summary
         = Some (sum_list (map (\<lambda>r. ndcg r 15) vectors) / real (length vectors))
     \<and> metric_ndcg_at_20 summary
         = Some (sum_list (map (\<lambda>r. ndcg r 20) vectors) / real (length vectors))
     \<and> metric_ndcg_at_50 summary
         = Some (sum_list (map (\<lambda>r. ndcg r 50) vectors) / real (length vectors))
     \<and> (\<forall>processes other_scheduler.
           1 \<le> processes
           \<and> (\<forall>call. {0..<length relevance_list_column} \<subseteq> set (other_scheduler call)) \<longrightarrow>
           EvaluateIfoodModel_run ap ndcg other_scheduler processes relevance_list_column
             = Some (Inr (columns, summary)))
     \<and> (\<forall>reordered. mset reordered = mset relevance_list_column \<longrightarrow>
           (\<exists>columns'. EvaluateIfoodModel_run ap ndcg scheduler num_processes reordered
               = Some (Inr (columns', summary))))"
proof -
  let ?columns = "\<lambda>vs. \<lparr>column_average_precision = map ap vs,
            column_ndcg_at_5 = map (\<lambda>r. ndcg r 5) vs,
            column_ndcg_at_10 = map (\<lambda>r. ndcg r 10) vs,
            column_ndcg_at_15 = map (\<lambda>r. ndcg r 15) vs,
            column_ndcg_at_20 = map (\<lambda>r. ndcg r 20) vs,
            column_ndcg_at_50 = map (\<lambda>r. ndcg r 50) vs\<rparr>"
  let ?summary = "\<lambda>vs. \<lparr>metric_count = length vs,
            metric_average_precision = series_mean (map ap vs),
            metric_ndcg_at_5 = series_mean (map (\<lambda>r. ndcg r 5) vs),
            metric_ndcg_at_10 = series_mean (map (\<lambda>r. ndcg r 10) vs),
            metric_ndcg_at_15 = series_mean (map (\<lambda>r. ndcg r 15) vs),
            metric_ndcg_at_20 = series_mean (map (\<lambda>r. ndcg r 20) vs),
            metric_ndcg_at_50 = series_mean (map (\<lambda>r. ndcg r 50) vs)\<rparr>"
  have run: "EvaluateIfoodModel_run ap ndcg other_scheduler processes relevance_list_column
      = Some (Inr (?columns vectors, ?summary vectors))"
    if "1 \<le> processes"
      "\<forall>call. {0..<length relevance_list_column} \<subseteq> set (other_scheduler call)"
    for processes other_scheduler
    using that assms(3) by (rule run_parsed)
  have mean: "series_mean (map f vectors) = Some (sum_list (map f vectors) / real (length vectors))"
    for f :: "int list \<Rightarrow> real"
    using assms(4) by (simp add: series_mean_def)
  have reorder: "\<exists>columns'. EvaluateIfoodModel_run ap ndcg scheduler num_processes reordered
      = Some (Inr (columns', ?summary vectors))"
    if m: "mset reordered = mset relevance_list_column" for reordered
  proof -
    let ?parsed = "\<lambda>cell. projr (literal_eval cell)"
    have cells: "\<forall>cell\<in>set relevance_list_column. literal_eval cell = Inr (?parsed cell)"
    proof
      fix cell assume "cell \<in> set relevance_list_column"
      then have "literal_eval cell \<in> set (map literal_eval relevance_list_column)" by simp
      then have "literal_eval cell \<in> set (map Inr vectors)" by (simp only: assms(3))
      then show "literal_eval cell = Inr (?parsed cell)" by auto
    qed
    have v: "vectors = map ?parsed relevance_list_column"
    proof -
      have "map projr (map literal_eval relevance_list_column)
          = map projr (map (Inr :: int list \<Rightarrow> error + int list) vectors)"
        by (simp only: assms(3))
      then show ?thesis by (simp add: comp_def)
    qed
    let ?vs' = "map ?parsed reordered"
    from m have "set reordered = set relevance_list_column" by (metis set_mset_mset)
    with cells have parsed: "map literal_eval reordered = map Inr ?vs'" by simp
    from m have "length reordered = length relevance_list_column" by (metis size_mset)
    with assms(2) have "\<forall>call. {0..<length reordered} \<subseteq> set (scheduler call)" by simp
    with assms(1) have r: "EvaluateIfoodModel_run ap ndcg scheduler num_processes reordered
        = Some (Inr (?columns ?vs', ?summary ?vs'))"
      using parsed by (rule run_parsed)
    have mv: "mset ?vs' = mset vectors"
      unfolding v using m by (metis mset_map)
    then have "mset (map f ?vs') = mset (map f vectors)" for f :: "int list \<Rightarrow> real"
      by (metis mset_map)
    then have "series_mean (map f ?vs') = series_mean (map f vectors)"
      for f :: "int list \<Rightarrow> real"
      by (rule series_mean_mset_cong)
    moreover have "length ?vs' = length vectors" using mv by (metis size_mset)
    ultimately have "?summary ?vs' = ?summary vectors" by simp
    with r show ?thesis by auto
  qed
  have first: "EvaluateIfoodModel_run ap ndcg scheduler num_processes relevance_list_column
      = Some (Inr (?columns vectors, ?summary vectors))"
    using assms(1,2) by (rule run)
  have every: "\<forall>processes other_scheduler.
      1 \<le> processes
      \<and> (\<forall>call. {0..<length relevance_list_column} \<subseteq> set (other_scheduler call)) \<longrightarrow>
      EvaluateIfoodModel_run ap ndcg other_scheduler processes relevance_list_column
        = Some (Inr (?columns vectors, ?summary vectors))"
    using run by blast
  have any_order: "\<forall>reordered. mset reordered = mset relevance_list_column \<longrightarrow>
      (\<exists>columns'. EvaluateIfoodModel_run ap ndcg scheduler num_processes reordered
          = Some (Inr (columns', ?summary vectors)))"
    using reorder by blast
  show ?thesis
    apply (rule exI[where x = "?columns vectors"])
    apply (rule exI[where x = "?summary vectors"])
    apply (intro conjI)
             apply (rule first)
            apply (simp only: metrics.simps)
           apply (simp only: metrics.simps mean)
          apply (simp only: metrics.simps mean)
         apply (simp only: metrics.simps mean)
        apply (simp only: metrics.simps mean)
       apply (simp only: metrics.simps mean)
      apply (simp only: metrics.simps mean)
     apply (rule every)
    apply (rule any_order)
    done
qed

theorem summary_is_mean_of_per_vector_metrics_witness:
  "(1::int) \<le> 3
   \<and> (\<forall>call :: nat. {0..<length [''[0, 1]'', ''[1]'']} \<subseteq> set [1, 0])
   \<and> map literal_eval [''[0, 1]'', ''[1]''] = map Inr [[0, 1], [1]]
   \<and> [[0, 1], [1 :: int]] \<noteq> []
   \<and> (\<exists>columns summary.
         EvaluateIfoodModel_run average_precision
             (\<lambda>r k. real_of_int (sum_list (take k r)) / real k) (\<lambda>call. [1, 0]) 3
             [''[0, 1]'', ''[1]'']
           = Some (Inr (columns, summary))
         \<and> metric_count summary = 2
         \<and> metric_average_precision summary = Some (3 / 4)
         \<and> EvaluateIfoodModel_run average_precision
             (\<lambda>r k. real_of_int (sum_list (take k r)) / real k) (\<lambda>call. [0, 1]) 1
             [''[0, 1]'', ''[1]'']
           = Some (Inr (columns, summary)))"
proof -
  let ?cells = "[''[0, 1]'', ''[1]'']"
  let ?vectors = "[[0, 1], [1 :: int]]"
  let ?ndcg = "\<lambda>(r :: int list) k. real_of_int (sum_list (take k r)) / real k"
  let ?scheduler = "\<lambda>call :: nat. [1, 0 :: nat]"
  let ?other = "\<lambda>call :: nat. [0, 1 :: nat]"
  have h1: "(1::int) \<le> 3" by simp
  have h2: "\<forall>call. {0..<length ?cells} \<subseteq> set (?scheduler call)" by auto
  have h2': "\<forall>call. {0..<length ?cells} \<subseteq> set (?other call)" by auto
  have h3: "map literal_eval ?cells = map Inr ?vectors" by code_simp
  have h4: "?vectors \<noteq> []" by simp
  have ap: "sum_list (map average_precision ?vectors) / real (length ?vectors) = 3 / 4"
    by (simp add: average_precision_def relevant_positions_def precision_at_def upt_rec)
  from summary_is_mean_of_per_vector_metrics[OF h1 h2 h3 h4, of average_precision ?ndcg]
  obtain columns summary where
    r: "EvaluateIfoodModel_run average_precision ?ndcg ?scheduler 3 ?cells
          = Some (Inr (columns, summary))"
    and c: "metric_count summary = length ?vectors"
    and m: "metric_average_precision summary
        = Some (sum_list (map average_precision ?vectors) / real (length ?vectors))"
    and p: "\<forall>processes other_scheduler.
        1 \<le> processes \<and> (\<forall>call. {0..<length ?cells} \<subseteq> set (other_scheduler call)) \<longrightarrow>
        EvaluateIfoodModel_run average_precision ?ndcg other_scheduler processes ?cells
          = Some (Inr (columns, summary))"
    by blast
  from p h2' have "EvaluateIfoodModel_run average_precision ?ndcg ?other 1 ?cells
      = Some (Inr (columns, summary))"
    by simp
  moreover from c have "metric_count summary = 2" by simp
  moreover from m ap have "metric_average_precision summary = Some (3 / 4)" by simp
  ultimately show ?thesis using h1 h2 h3 h4 r by blast
qed

end
